theory Spec2Isabelle
  imports Main "HOL-Library.Sublist"
begin

section \<open>The forwarding proxy of \<open>proxy/proxy.go\<close>\<close>

text \<open>
  The development embeds the functions of \<open>proxy/proxy.go\<close>: \<open>extractDest\<close>,
  \<open>doRequest\<close>, \<open>GetHandler\<close>, \<open>PostHandler\<close>, and the methods \<open>Start\<close> and
  \<open>Shutdown\<close> of \<open>ProxyServer\<close>. Go strings are byte strings and are modelled as
  \<open>string\<close> (a list of 8-bit characters); Go's \<open>int\<close> is modelled as \<open>int\<close>
  (no arithmetic in the file comes near the 64-bit range). A Go result pair
  \<open>(v, err)\<close> is a pair whose second component is \<open>None\<close> for \<open>nil\<close>; where Go
  returns either a value or an error, the result is a sum with the error on
  the left.

  The functions of Go's library that the proxy calls come first, each with the
  behaviour the library documents and, where it is short, the library's own
  code: \<open>strings\<close>, then the query strings of \<open>net/url\<close>, then the requests
  and forms of \<open>net/http\<close>. What lies outside the program (the upstream
  server, the inbound connection, the parsers of media types and of URLs) is a
  parameter of the handlers.
\<close>

subsection \<open>Errors\<close>

text \<open>
  \<open>errors.New(msg)\<close> and \<open>fmt.Errorf(msg)\<close> give an error value that carries
  its message; \<open>url.EscapeError(s)\<close> is the error of package \<open>net/url\<close> for a
  malformed percent-escape \<open>s\<close>; \<open>InvalidMethod m\<close> is the error of
  \<open>http.NewRequest\<close> for a method \<open>m\<close> that is not a token.
\<close>

datatype error = errors_New string | EscapeError string | InvalidMethod string

subsection \<open>Package \<open>strings\<close>\<close>

text \<open>
  \<open>strings.HasPrefix(s, prefix)\<close> is
  \<open>len(s) >= len(prefix) && s[:len(prefix)] == prefix\<close>.
\<close>

definition HasPrefix :: "string \<Rightarrow> string \<Rightarrow> bool" where
  "HasPrefix s pre = (length pre \<le> length s \<and> take (length pre) s = pre)"

text \<open>
  \<open>strings.Index(s, substr)\<close>: the index of the first instance of \<open>substr\<close> in
  \<open>s\<close>, or \<open>-1\<close> when \<open>substr\<close> does not occur. The library searches with
  byte-level algorithms; the model tries each start position from the left.
\<close>

fun Index :: "string \<Rightarrow> string \<Rightarrow> int" where
  "Index [] substr = (if substr = [] then 0 else - 1)"
| "Index (c # s) substr =
     (if HasPrefix (c # s) substr then 0
      else (let i = Index s substr in if i < 0 then - 1 else i + 1))"

lemma Index_range: "Index s substr = - 1 \<or> 0 \<le> Index s substr"
  by (induction s) (auto simp: Let_def)

lemma Index_found_nonempty:
  "substr \<noteq> [] \<Longrightarrow> Index s substr \<noteq> - 1 \<Longrightarrow> s \<noteq> []"
  by (cases s) auto

text \<open>
  \<open>strings.Count(s, substr)\<close>: the number of non-overlapping instances of
  \<open>substr\<close> in \<open>s\<close>, by the library's loop
  \<^verbatim>\<open>
  n := 0
  for {
      i := Index(s, substr)
      if i == -1 { return n }
      n++
      s = s[i+len(substr):]
  }
  \<close>
  For an empty \<open>substr\<close> the library returns the number of UTF-8 sequences of
  \<open>s\<close> plus one; the model counts every byte as one sequence there, as Go
  does on ASCII text. \<open>extractDest\<close> only searches for the non-empty
  \<open>"/proxy/"\<close>.
\<close>

function Count :: "string \<Rightarrow> string \<Rightarrow> int" where
  "Count s substr =
     (if substr = [] then int (length s) + 1
      else (let i = Index s substr
            in if i = - 1 then 0
               else 1 + Count (drop (nat i + length substr) s) substr))"
  by pat_completeness auto
termination
proof (relation "measure (\<lambda>(s, substr). length s)")
  show "wf (measure (\<lambda>(s, substr). length s))" by simp
next
  fix s substr :: string and i :: int
  assume ne: "substr \<noteq> []" and i: "i = Index s substr" and found: "i \<noteq> - 1"
  from ne i found have "s \<noteq> []" using Index_found_nonempty by blast
  moreover from ne have "0 < nat i + length substr" by simp
  ultimately have "length (drop (nat i + length substr) s) < length s" by simp
  then show "((drop (nat i + length substr) s, substr), (s, substr))
      \<in> measure (\<lambda>(s, substr). length s)" by simp
qed

declare Count.simps [simp del]

text \<open>
  \<open>strings.Replace(s, old, new, n)\<close>: a copy of \<open>s\<close> with the first \<open>n\<close>
  non-overlapping instances of \<open>old\<close> replaced by \<open>new\<close> (all of them when
  \<open>n < 0\<close>). The library first bounds \<open>n\<close> by \<open>Count(s, old)\<close> and then runs
  \<^verbatim>\<open>
  start := 0
  for i := 0; i < n; i++ {
      j := start
      if len(old) == 0 {
          if i > 0 { _, wid := utf8.DecodeRuneInString(s[start:]); j += wid }
      } else {
          j += Index(s[start:], old)
      }
      b.WriteString(s[start:j]); b.WriteString(new)
      start = j + len(old)
  }
  b.WriteString(s[start:])
  \<close>
  \<open>replaceLoop\<close> is that loop on the rest \<open>s[start:]\<close>, with the number of
  iterations left and a flag for \<open>i = 0\<close>. The width of a UTF-8 sequence is
  taken as one byte, as in \<open>Count\<close>.
\<close>

fun replaceLoop :: "string \<Rightarrow> string \<Rightarrow> string \<Rightarrow> nat \<Rightarrow> bool \<Rightarrow> string" where
  "replaceLoop s old new 0 first = s"
| "replaceLoop s old new (Suc k) first =
     (let j = (if old = [] then (if first then 0 else 1) else nat (Index s old))
      in take j s @ new @ replaceLoop (drop (j + length old) s) old new k False)"

definition Replace :: "string \<Rightarrow> string \<Rightarrow> string \<Rightarrow> int \<Rightarrow> string" where
  "Replace s old new n =
     (if old = new \<or> n = 0 then s
      else (let m = Count s old
            in if m = 0 then s
               else replaceLoop s old new (nat (if n < 0 \<or> m < n then m else n)) True))"

subsection \<open>\<open>extractDest\<close>\<close>

text \<open>
  \<^verbatim>\<open>
  func extractDest(path string) (string, error) {
      if strings.Index(path, "/proxy/") != 0 {
          return "", errors.New("unknown path")
      }
      return strings.Replace(path, "/proxy/", "", 1), nil
  }
  \<close>
\<close>

definition extractDest :: "string \<Rightarrow> string \<times> error option" where
  "extractDest path =
     (if Index path ''/proxy/'' \<noteq> 0 then ('''', Some (errors_New ''unknown path''))
      else (Replace path ''/proxy/'' '''' 1, None))"

text \<open>
  \<open>strings.Contains(s, substr)\<close> is \<open>Index(s, substr) >= 0\<close>, and
  \<open>strings.Cut(s, sep)\<close> is
  \<^verbatim>\<open>
  if i := Index(s, sep); i >= 0 { return s[:i], s[i+len(sep):], true }
  return s, "", false
  \<close>
\<close>

definition Contains :: "string \<Rightarrow> string \<Rightarrow> bool" where
  "Contains s substr = (0 \<le> Index s substr)"

definition Cut :: "string \<Rightarrow> string \<Rightarrow> string \<times> string \<times> bool" where
  "Cut s sep =
     (let i = Index s sep
      in if 0 \<le> i then (take (nat i) s, drop (nat i + length sep) s, True)
         else (s, '''', False))"

lemma Cut_after_shorter:
  "s \<noteq> [] \<Longrightarrow> sep \<noteq> [] \<Longrightarrow> length (fst (snd (Cut s sep))) < length s"
  by (simp add: Cut_def Let_def)

subsection \<open>Package \<open>net/url\<close>: query strings\<close>

text \<open>
  \<open>url.Values\<close> and \<open>http.Header\<close> are both \<open>map[string][]string\<close>. A Go map
  is modelled as an association list with one entry for each key: \<open>index m k\<close>
  reads \<open>m[k]\<close> (the empty slice for a missing key, also on a \<open>nil\<close> map),
  \<open>assign m k vs\<close> is \<open>m[k] = vs\<close>. The order of the entries stands for nothing
  in Go; the only function below that walks a whole map and produces text,
  \<open>Encode\<close>, sorts the keys first.
\<close>

type_synonym Values = "(string \<times> string list) list"

definition index :: "Values \<Rightarrow> string \<Rightarrow> string list" where
  "index m k = (case map_of m k of None \<Rightarrow> [] | Some vs \<Rightarrow> vs)"

fun assign :: "Values \<Rightarrow> string \<Rightarrow> string list \<Rightarrow> Values" where
  "assign [] k vs = [(k, vs)]"
| "assign ((k', vs') # m) k vs =
     (if k' = k then (k, vs) # m else (k', vs') # assign m k vs)"

text \<open>
  \<open>ishex\<close> and \<open>unhex\<close> of \<open>net/url\<close>, on bytes.
\<close>

definition ishex :: "char \<Rightarrow> bool" where
  "ishex c = (let n = (of_char c :: nat)
              in (48 \<le> n \<and> n \<le> 57) \<or> (97 \<le> n \<and> n \<le> 102) \<or> (65 \<le> n \<and> n \<le> 70))"

definition unhex :: "char \<Rightarrow> nat" where
  "unhex c = (let n = (of_char c :: nat)
              in if 48 \<le> n \<and> n \<le> 57 then n - 48
                 else if 97 \<le> n \<and> n \<le> 102 then n - 97 + 10
                 else if 65 \<le> n \<and> n \<le> 70 then n - 65 + 10
                 else 0)"

text \<open>
  \<open>url.QueryUnescape(s)\<close>, that is \<open>unescape(s, encodeQueryComponent)\<close>: a
  \<open>%\<close> must be followed by two hex digits, else the result is the empty
  string and \<open>EscapeError\<close> of the offending text (at most three bytes);
  \<open>%XX\<close> becomes the byte \<open>XX\<close>, \<open>+\<close> becomes a space. The library checks the
  whole string first and decodes in a second pass; the model does both in one
  pass and gives up at the first malformed escape, which is the one the
  library reports.
\<close>

function unescape :: "string \<Rightarrow> error + string" where
  "unescape s =
     (case s of
        [] \<Rightarrow> Inr []
      | c # t \<Rightarrow>
          if c = CHR ''%'' then
            (if 2 \<le> length t \<and> ishex (t ! 0) \<and> ishex (t ! 1) then
               (case unescape (drop 2 t) of
                  Inl e \<Rightarrow> Inl e
                | Inr u \<Rightarrow> Inr (char_of (unhex (t ! 0) * 16 + unhex (t ! 1)) # u))
             else Inl (EscapeError (take 3 s)))
          else
            (case unescape t of
               Inl e \<Rightarrow> Inl e
             | Inr u \<Rightarrow> Inr ((if c = CHR ''+'' then CHR '' '' else c) # u)))"
  by pat_completeness auto
termination
  by (relation "measure length") auto

declare unescape.simps [simp del]

definition QueryUnescape :: "string \<Rightarrow> string \<times> error option" where
  "QueryUnescape s = (case unescape s of Inl e \<Rightarrow> ('''', Some e) | Inr u \<Rightarrow> (u, None))"

text \<open>
  \<open>url.ParseQuery(query)\<close> is \<open>parseQuery(m, query)\<close> on a fresh map, returning
  the map with the first error met (Go 1.17 and later, where \<open>;\<close> is no
  longer a separator):
  \<^verbatim>\<open>
  for query != "" {
      var key string
      key, query, _ = strings.Cut(query, "&")
      if strings.Contains(key, ";") {
          err = fmt.Errorf("invalid semicolon separator in query")
          continue
      }
      if key == "" { continue }
      key, value, _ := strings.Cut(key, "=")
      key, err1 := QueryUnescape(key)
      if err1 != nil { if err == nil { err = err1 }; continue }
      value, err1 = QueryUnescape(value)
      if err1 != nil { if err == nil { err = err1 }; continue }
      m[key] = append(m[key], value)
  }
  return err
  \<close>
\<close>

definition firstError :: "error option \<Rightarrow> error option \<Rightarrow> error option" where
  "firstError err e = (if err = None then e else err)"

function parseQuery :: "Values \<Rightarrow> error option \<Rightarrow> string \<Rightarrow> Values \<times> error option" where
  "parseQuery m err query =
     (if query = [] then (m, err)
      else
        (let key = fst (Cut query ''&''); rest = fst (snd (Cut query ''&''))
         in if Contains key '';'' then
              parseQuery m (Some (errors_New ''invalid semicolon separator in query'')) rest
            else if key = [] then parseQuery m err rest
            else
              (let k = fst (Cut key ''=''); v = fst (snd (Cut key ''=''))
               in case QueryUnescape k of
                    (_, Some err1) \<Rightarrow> parseQuery m (firstError err (Some err1)) rest
                  | (k, None) \<Rightarrow>
                      (case QueryUnescape v of
                         (_, Some err1) \<Rightarrow> parseQuery m (firstError err (Some err1)) rest
                       | (v, None) \<Rightarrow> parseQuery (assign m k (index m k @ [v])) err rest))))"
  by pat_completeness auto
termination
  by (relation "measure (\<lambda>(m, err, query). length query)")
     (auto simp: Cut_after_shorter)

declare parseQuery.simps [simp del]

definition ParseQuery :: "string \<Rightarrow> Values \<times> error option" where
  "ParseQuery query = parseQuery [] None query"

text \<open>
  \<open>url.QueryEscape(s)\<close>, that is \<open>escape(s, encodeQueryComponent)\<close>: letters,
  digits and \<open>- _ . ~\<close> stay, a space becomes \<open>+\<close>, every other byte becomes
  \<open>%XX\<close> with upper-case hex digits.
\<close>

definition shouldEscape :: "char \<Rightarrow> bool" where
  "shouldEscape c =
     (let n = (of_char c :: nat)
      in \<not> ((97 \<le> n \<and> n \<le> 122) \<or> (65 \<le> n \<and> n \<le> 90) \<or> (48 \<le> n \<and> n \<le> 57)
            \<or> c = CHR ''-'' \<or> c = CHR ''_'' \<or> c = CHR ''.'' \<or> c = CHR ''~''))"

definition upperhex :: "nat \<Rightarrow> char" where
  "upperhex n = ''0123456789ABCDEF'' ! n"

fun QueryEscape :: "string \<Rightarrow> string" where
  "QueryEscape [] = []"
| "QueryEscape (c # s) =
     (if shouldEscape c then
        (if c = CHR '' '' then CHR ''+'' # QueryEscape s
         else CHR ''%'' # upperhex (of_char c div 16) # upperhex (of_char c mod 16) # QueryEscape s)
      else c # QueryEscape s)"

text \<open>
  Go compares strings byte by byte; \<open>sortStrings\<close> stands for \<open>slices.Sort\<close> on
  the keys of a map, which are distinct, so that the sorted result does not
  depend on the sorting algorithm.
\<close>

fun string_less :: "string \<Rightarrow> string \<Rightarrow> bool" where
  "string_less [] [] = False"
| "string_less [] (y # ys) = True"
| "string_less (x # xs) [] = False"
| "string_less (x # xs) (y # ys) =
     ((of_char x :: nat) < of_char y \<or> (x = y \<and> string_less xs ys))"

fun insertString :: "string \<Rightarrow> string list \<Rightarrow> string list" where
  "insertString k [] = [k]"
| "insertString k (x # xs) = (if string_less x k then x # insertString k xs else k # x # xs)"

fun sortStrings :: "string list \<Rightarrow> string list" where
  "sortStrings [] = []"
| "sortStrings (k # ks) = insertString k (sortStrings ks)"

text \<open>
  \<open>Values.Encode()\<close>:
  \<^verbatim>\<open>
  if len(v) == 0 { return "" }
  keys := ... the keys of v ...; slices.Sort(keys)
  for _, k := range keys {
      vs := v[k]
      keyEscaped := QueryEscape(k)
      for _, v := range vs {
          if buf.Len() > 0 { buf.WriteByte('&') }
          buf.WriteString(keyEscaped)
          buf.WriteByte('=')
          buf.WriteString(QueryEscape(v))
      }
  }
  return buf.String()
  \<close>
\<close>

definition encodeValue :: "string \<Rightarrow> string \<Rightarrow> string \<Rightarrow> string" where
  "encodeValue keyEscaped buf v =
     (if 0 < length buf then buf @ ''&'' else buf) @ keyEscaped @ ''='' @ QueryEscape v"

definition encodeKey :: "Values \<Rightarrow> string \<Rightarrow> string \<Rightarrow> string" where
  "encodeKey v buf k = foldl (encodeValue (QueryEscape k)) buf (index v k)"

definition Encode :: "Values \<Rightarrow> string" where
  "Encode v =
     (if length v = 0 then ''''
      else foldl (encodeKey v) '''' (sortStrings (map fst v)))"

text \<open>
  For the properties of \<open>Encode\<close>: the pairs of a key and a value in the order
  in which \<open>Encode\<close> writes them for the keys \<open>ks\<close>, and the text of such a list
  of pairs, each pair escaped and joined by \<open>=\<close>, the pairs joined by \<open>&\<close>.
\<close>

definition formPairs :: "Values \<Rightarrow> string list \<Rightarrow> (string \<times> string) list" where
  "formPairs v ks = concat (map (\<lambda>k. map (\<lambda>x. (k, x)) (index v k)) ks)"

definition encodedPair :: "string \<times> string \<Rightarrow> string" where
  "encodedPair p = QueryEscape (fst p) @ ''='' @ QueryEscape (snd p)"

fun joinPairs :: "(string \<times> string) list \<Rightarrow> string" where
  "joinPairs [] = []"
| "joinPairs [p] = encodedPair p"
| "joinPairs (p # q # ps) = encodedPair p @ ''&'' @ joinPairs (q # ps)"

subsection \<open>Package \<open>net/http\<close>: requests and responses\<close>

text \<open>
  A body (\<open>io.ReadCloser\<close>) is the bytes it yields and how it ends: at end of
  file (\<open>None\<close>) or with a read error. \<open>strings.NewReader(s)\<close> yields \<open>s\<close> and
  ends well. \<open>ioutil.ReadAll\<close> returns the bytes read and the error, if any.
  \<open>io.LimitReader(r, n)\<close> stops after \<open>n\<close> bytes, and then never meets an
  error that lies behind them.
\<close>

datatype ReadCloser = Reader string "error option"

definition NewReader :: "string \<Rightarrow> ReadCloser" where
  "NewReader s = Reader s None"

fun ReadAll :: "ReadCloser \<Rightarrow> string \<times> error option" where
  "ReadAll (Reader b e) = (b, e)"

fun LimitReader :: "ReadCloser \<Rightarrow> nat \<Rightarrow> ReadCloser" where
  "LimitReader (Reader b e) n = (if n \<le> length b then Reader (take n b) None else Reader b e)"

text \<open>
  \<open>url.URL\<close>: a parsed URL, kept as the text it was parsed from and the one
  component the handlers read, \<open>RawQuery\<close>: the text after the first \<open>?\<close>
  (for \<open>url.Parse\<close>, of what stands before the first \<open>#\<close>; a request target
  has no fragment and \<open>url.ParseRequestURI\<close> does not look for one).
  \<open>Parse_ok\<close> and \<open>ParseRequestURI_ok\<close> are the results of the two parsers
  when they accept their text. Whether \<open>url.Parse\<close> accepts a destination is
  left to the surroundings (\<open>url_Parse_error\<close> below); a request whose target
  the server cannot parse is answered by the server and reaches no handler.
\<close>

record URL =
  rawURL :: string
  RawQuery :: string

definition ParseRequestURI_ok :: "string \<Rightarrow> URL" where
  "ParseRequestURI_ok u = \<lparr>rawURL = u, RawQuery = fst (snd (Cut u ''?''))\<rparr>"

definition Parse_ok :: "string \<Rightarrow> URL" where
  "Parse_ok u = \<lparr>rawURL = u, RawQuery = fst (snd (Cut (fst (Cut u ''#'')) ''?''))\<rparr>"

text \<open>
  \<open>http.Request\<close>, with the fields the proxy reads or writes. \<open>Form\<close> and
  \<open>PostForm\<close> are \<open>nil\<close> (\<open>None\<close>) until \<open>ParseForm\<close> has run. \<open>http.Response\<close>
  with its status code and body.
\<close>

type_synonym Header = Values

record Request =
  Method :: string
  URL :: URL
  Header :: Header
  Body :: "ReadCloser option"
  Form :: "Values option"
  PostForm :: "Values option"
  RequestURI :: string

record Response =
  StatusCode :: int
  resp_Body :: ReadCloser

text \<open>
  The request the server hands to a handler for the request line
  \<open>method target HTTP/1.1\<close> (\<open>readRequest\<close> of \<open>net/http\<close>): \<open>RequestURI\<close> is the
  target as received, \<open>URL\<close> is \<open>url.ParseRequestURI(target)\<close>, the body is
  never \<open>nil\<close>, the forms are not parsed yet.
\<close>

definition readRequest :: "string \<Rightarrow> string \<Rightarrow> Header \<Rightarrow> ReadCloser \<Rightarrow> Request" where
  "readRequest method target header body =
     \<lparr>Method = method, URL = ParseRequestURI_ok target, Header = header, Body = Some body,
      Form = None, PostForm = None, RequestURI = target\<rparr>"

text \<open>
  What the proxy's surroundings decide, as parameters of the handlers:
  \<^item> \<open>mime_ParseMediaType\<close>: \<open>mime.ParseMediaType\<close>, the media type of a
    \<open>Content-Type\<close> value (lower case, parameters dropped) and its error;
  \<^item> \<open>url_Parse_error\<close>: the verdict of the syntax checks of \<open>url.Parse\<close> on a
    destination, \<open>None\<close> when it parses;
  \<^item> \<open>client_Do\<close>: \<open>http.DefaultClient.Do\<close>, the round trip to the upstream,
    which fails or gives a response;
  \<^item> \<open>w_Write\<close>: whether \<open>Write\<close> on the \<open>http.ResponseWriter\<close> of the inbound
    connection fails for the given bytes.
\<close>

record env =
  mime_ParseMediaType :: "string \<Rightarrow> string \<times> error option"
  url_Parse_error :: "string \<Rightarrow> error option"
  client_Do :: "Request \<Rightarrow> error + Response"
  w_Write :: "string \<Rightarrow> error option"

text \<open>
  \<open>Header.Get(key)\<close>: the first value stored under the canonical form of
  \<open>key\<close>, or the empty string. The only key looked up is \<open>"Content-Type"\<close>,
  which is its own canonical form.
\<close>

definition Header_Get :: "Header \<Rightarrow> string \<Rightarrow> string" where
  "Header_Get h key = (case index h key of [] \<Rightarrow> '''' | v # _ \<Rightarrow> v)"

text \<open>
  \<open>copyValues(dst, src)\<close>:
  \<^verbatim>\<open>
  for k, vs := range src { dst[k] = append(dst[k], vs...) }
  \<close>
  Go visits the keys of \<open>src\<close> in no fixed order; they are distinct, so what
  \<open>dst\<close> holds under each key afterwards is the same in every order.
\<close>

definition copyValues :: "Values \<Rightarrow> Values \<Rightarrow> Values" where
  "copyValues dst src = foldl (\<lambda>d (k, vs). assign d k (index d k @ vs)) dst src"

text \<open>
  \<open>parsePostForm(r)\<close>:
  \<^verbatim>\<open>
  if r.Body == nil { err = errors.New("missing form body"); return }
  ct := r.Header.Get("Content-Type")
  if ct == "" { ct = "application/octet-stream" }
  ct, _, err = mime.ParseMediaType(ct)
  switch {
  case ct == "application/x-www-form-urlencoded":
      var reader io.Reader = r.Body
      maxFormSize := int64(1<<63 - 1)
      if _, ok := r.Body.(*maxBytesReader); !ok {
          maxFormSize = int64(10 << 20)
          reader = io.LimitReader(r.Body, maxFormSize+1)
      }
      b, e := io.ReadAll(reader)
      if e != nil { if err == nil { err = e }; break }
      if int64(len(b)) > maxFormSize { err = errors.New("http: POST too large"); return }
      vs, e = url.ParseQuery(string(b))
      if err == nil { err = e }
  case ct == "multipart/form-data":
  }
  return
  \<close>
  The proxy never wraps a body in \<open>http.MaxBytesReader\<close>, so the limit of
  10 MB is always in force.
\<close>

definition maxFormSize :: nat where
  "maxFormSize = 10 * 2 ^ 20"

definition parsePostForm :: "env \<Rightarrow> Request \<Rightarrow> Values option \<times> error option" where
  "parsePostForm env r =
     (case Body r of
        None \<Rightarrow> (None, Some (errors_New ''missing form body''))
      | Some body \<Rightarrow>
          (let ct0 = Header_Get (Header r) ''Content-Type'';
               ct1 = (if ct0 = '''' then ''application/octet-stream'' else ct0);
               ct = fst (mime_ParseMediaType env ct1);
               err = snd (mime_ParseMediaType env ct1)
           in if ct = ''application/x-www-form-urlencoded'' then
                (case ReadAll (LimitReader body (maxFormSize + 1)) of
                   (b, Some e) \<Rightarrow> (None, firstError err (Some e))
                 | (b, None) \<Rightarrow>
                     if maxFormSize < length b then (None, Some (errors_New ''http: POST too large''))
                     else (Some (fst (ParseQuery b)), firstError err (snd (ParseQuery b))))
              else (None, err)))"

text \<open>
  \<open>(*Request).ParseForm()\<close>:
  \<^verbatim>\<open>
  var err error
  if r.PostForm == nil {
      if r.Method == "POST" || r.Method == "PUT" || r.Method == "PATCH" {
          r.PostForm, err = parsePostForm(r)
      }
      if r.PostForm == nil { r.PostForm = make(url.Values) }
  }
  if r.Form == nil {
      if len(r.PostForm) > 0 {
          r.Form = make(url.Values)
          copyValues(r.Form, r.PostForm)
      }
      var newValues url.Values
      if r.URL != nil {
          var e error
          newValues, e = url.ParseQuery(r.URL.RawQuery)
          if err == nil { err = e }
      }
      if newValues == nil { newValues = make(url.Values) }
      if r.Form == nil { r.Form = newValues } else { copyValues(r.Form, newValues) }
  }
  return err
  \<close>
  The request of a handler always has a \<open>URL\<close>. The model returns the updated
  request with the error; \<open>parsePostFormStep\<close> is the first \<open>if\<close> of the body
  and \<open>parseFormStep\<close> the second.
\<close>

definition parsePostFormStep :: "env \<Rightarrow> Request \<Rightarrow> Request \<times> error option" where
  "parsePostFormStep env r =
     (if PostForm r = None then
        (let res = (if Method r = ''POST'' \<or> Method r = ''PUT'' \<or> Method r = ''PATCH''
                    then parsePostForm env r else (None, None))
         in (r\<lparr>PostForm := Some (case fst res of None \<Rightarrow> [] | Some vs \<Rightarrow> vs)\<rparr>, snd res))
      else (r, None))"

definition parseFormStep :: "Request \<Rightarrow> error option \<Rightarrow> Request \<times> error option" where
  "parseFormStep r err =
     (if Form r = None then
        (let postForm = (case PostForm r of None \<Rightarrow> [] | Some vs \<Rightarrow> vs);
             form = (if 0 < length postForm then Some (copyValues [] postForm) else None);
             newValues = fst (ParseQuery (RawQuery (URL r)));
             err' = firstError err (snd (ParseQuery (RawQuery (URL r))))
         in (r\<lparr>Form := Some (case form of None \<Rightarrow> newValues
                                        | Some f \<Rightarrow> copyValues f newValues)\<rparr>, err'))
      else (r, err))"

definition ParseForm :: "env \<Rightarrow> Request \<Rightarrow> Request \<times> error option" where
  "ParseForm env r =
     (let r1 = fst (parsePostFormStep env r); err = snd (parsePostFormStep env r)
      in parseFormStep r1 err)"

text \<open>
  \<open>http.NewRequest(method, url, body)\<close>: an empty method stands for \<open>GET\<close>;
  the method must be a non-empty token (\<open>validMethod\<close>) and the URL must
  parse; the new request has an empty header and the body given.
\<close>

definition isTokenRune :: "char \<Rightarrow> bool" where
  "isTokenRune c =
     (let n = (of_char c :: nat)
      in (97 \<le> n \<and> n \<le> 122) \<or> (65 \<le> n \<and> n \<le> 90) \<or> (48 \<le> n \<and> n \<le> 57)
         \<or> n \<in> {33, 35, 36, 37, 38, 39, 42, 43, 45, 46, 94, 95, 96, 124, 126})"

definition validMethod :: "string \<Rightarrow> bool" where
  "validMethod method = (0 < length method \<and> list_all isTokenRune method)"

definition NewRequest :: "env \<Rightarrow> string \<Rightarrow> string \<Rightarrow> ReadCloser option \<Rightarrow> error + Request" where
  "NewRequest env method0 url body =
     (let method = (if method0 = '''' then ''GET'' else method0)
      in if \<not> validMethod method then Inl (InvalidMethod method)
         else (case url_Parse_error env url of
                 Some err \<Rightarrow> Inl err
               | None \<Rightarrow>
                   Inr \<lparr>Method = method, URL = Parse_ok url, Header = [], Body = body,
                        Form = None, PostForm = None, RequestURI = ''''\<rparr>))"

definition StatusBadRequest :: int where
  "StatusBadRequest = 400"

definition StatusInternalServerError :: int where
  "StatusInternalServerError = 500"

subsection \<open>The handlers\<close>

text \<open>
  A handler acts on the world only through calls: on the response writer of
  the inbound connection (\<open>WriteHeader\<close>, \<open>Write\<close>), on the shared HTTP client
  (\<open>Do\<close>), on the upstream body (\<open>Close\<close>) and on the logger. A run of a
  handler is the list of what these calls do, in the order the code makes
  them:
  \<^item> \<open>WriteHeader code\<close>: the status line with \<open>code\<close> is committed as the
    status of the response to the original caller;
  \<^item> \<open>Informational code\<close>: an interim \<open>1xx\<close> response is sent, the status of
    the response is still open;
  \<^item> \<open>Write b\<close>: the handler has called \<open>Write\<close> with the bytes \<open>b\<close>;
  \<^item> \<open>ClientDo req\<close>: the handler has called \<open>http.DefaultClient.Do(req)\<close>;
  \<^item> \<open>BodyClose\<close>: the upstream body is closed;
  \<^item> \<open>Log level msg\<close>: a log call, kept as its level and message (the
    structured fields are left out);
  \<^item> \<open>Panic msg\<close>: the handler panics; nothing of its text runs after that
    but its deferred calls, and the server drops the connection.
\<close>

datatype level = DebugLevel | InfoLevel | ErrorLevel

datatype event =
    WriteHeader int
  | Informational int
  | Write string
  | ClientDo Request
  | BodyClose
  | Log level string
  | Panic string

text \<open>
  The response writer that the server of \<open>net/http\<close> hands to a handler
  (Go 1.19 and later). Its \<open>WriteHeader(code)\<close>, when no header has been
  written yet (every call of \<open>WriteHeader\<close> in the proxy is the first call on
  its writer):
  \<^verbatim>\<open>
  checkWriteHeaderCode(code)   // panics if code < 100 || code > 999
  if code >= 100 && code <= 199 && code != StatusSwitchingProtocols {
      ... writes the interim response ...
      return
  }
  w.wroteHeader = true
  w.status = code
  \<close>
  \<open>w_WriteHeader code rest\<close> is that call followed by \<open>rest\<close>, the text of the
  handler after the call, which is given the flag \<open>wroteHeader\<close>; after a
  panic \<open>rest\<close> does not run. Its \<open>Write(data)\<close> begins with
  \<^verbatim>\<open>
  if !w.wroteHeader { w.WriteHeader(StatusOK) }
  \<close>
  and \<open>response_Write wroteHeader data\<close> is the call with that beginning;
  whether the bytes then reach the caller is \<open>w_Write\<close> of the surroundings.
  The HTTP client never returns a status from 100 to 199 other than 101 (its
  transport consumes interim responses), but it does return a status below
  100 when the upstream sends one, such as \<open>099\<close>.
\<close>

definition StatusOK :: int where
  "StatusOK = 200"

definition StatusSwitchingProtocols :: int where
  "StatusSwitchingProtocols = 101"

definition w_WriteHeader :: "int \<Rightarrow> (bool \<Rightarrow> event list) \<Rightarrow> event list" where
  "w_WriteHeader code rest =
     (if code < 100 \<or> 999 < code then [Panic ''invalid WriteHeader code'']
      else if 100 \<le> code \<and> code \<le> 199 \<and> code \<noteq> StatusSwitchingProtocols
      then Informational code # rest False
      else WriteHeader code # rest True)"

definition response_Write :: "bool \<Rightarrow> string \<Rightarrow> event list" where
  "response_Write wroteHeader b = (if wroteHeader then [] else [WriteHeader StatusOK]) @ [Write b]"

text \<open>
  \<^verbatim>\<open>
  func doRequest(w http.ResponseWriter, method string, dest string,
                 headers http.Header, requestBody io.Reader) {
      req, err := http.NewRequest(method, dest, requestBody)
      if err != nil {
          w.WriteHeader(http.StatusInternalServerError)
          logger.Error("create new get request failed", ...)
          return
      }
      req.Header = headers
      resp, err := http.DefaultClient.Do(req)
      if err != nil {
          w.WriteHeader(http.StatusBadRequest)
          logger.Error("request failed", ...)
          return
      }
      defer resp.Body.Close()
      body, err := ioutil.ReadAll(resp.Body)
      if err != nil {
          w.WriteHeader(http.StatusInternalServerError)
          return
      }
      w.WriteHeader(resp.StatusCode)
      if _, err := w.Write(body); err != nil {
          logger.Error("write response body failed", ...)
      }
  }
  \<close>
  The deferred \<open>Close\<close> runs when the function returns and also when it
  panics.
\<close>

definition doRequest ::
  "env \<Rightarrow> string \<Rightarrow> string \<Rightarrow> Header \<Rightarrow> ReadCloser option \<Rightarrow> event list" where
  "doRequest env method dest headers requestBody =
     (case NewRequest env method dest requestBody of
        Inl err \<Rightarrow>
          w_WriteHeader StatusInternalServerError
            (\<lambda>wroteHeader. [Log ErrorLevel ''create new get request failed''])
      | Inr req0 \<Rightarrow>
          (let req = req0\<lparr>Header := headers\<rparr>
           in case client_Do env req of
                Inl err \<Rightarrow>
                  ClientDo req
                  # w_WriteHeader StatusBadRequest
                      (\<lambda>wroteHeader. [Log ErrorLevel ''request failed''])
              | Inr resp \<Rightarrow>
                  [ClientDo req]
                  @ (case ReadAll (resp_Body resp) of
                       (body, Some err) \<Rightarrow>
                         w_WriteHeader StatusInternalServerError (\<lambda>wroteHeader. [])
                     | (body, None) \<Rightarrow>
                         w_WriteHeader (StatusCode resp)
                           (\<lambda>wroteHeader.
                              response_Write wroteHeader body
                              @ (case w_Write env body of
                                   Some err \<Rightarrow> [Log ErrorLevel ''write response body failed'']
                                 | None \<Rightarrow> [])))
                  @ [BodyClose]))"

text \<open>
  \<^verbatim>\<open>
  func GetHandler(w http.ResponseWriter, r *http.Request) {
      ...
      logger.Debug("GET proxy", ...)
      dest, err := extractDest(r.RequestURI)
      if err != nil {
          w.WriteHeader(http.StatusBadRequest)
          logger.Debug("extract destination failed", ...)
          return
      }
      if len(dest) == 0 {
          w.WriteHeader(http.StatusBadRequest)
          return
      }
      doRequest(w, "GET", dest, r.Header, nil)
  }
  \<close>
  The loop before the first log call only formats the headers for it.
\<close>

definition GetHandler :: "env \<Rightarrow> Request \<Rightarrow> event list" where
  "GetHandler env r =
     Log DebugLevel ''GET proxy''
     # (case extractDest (RequestURI r) of
          (dest, Some err) \<Rightarrow>
            w_WriteHeader StatusBadRequest
              (\<lambda>wroteHeader. [Log DebugLevel ''extract destination failed''])
        | (dest, None) \<Rightarrow>
            if length dest = 0 then w_WriteHeader StatusBadRequest (\<lambda>wroteHeader. [])
            else doRequest env ''GET'' dest (Header r) None)"

text \<open>
  \<^verbatim>\<open>
  func PostHandler(w http.ResponseWriter, r *http.Request) {
      ...
      if err := r.ParseForm(); err != nil {
          logger.Error("parse form failed", ...)
          w.WriteHeader(http.StatusBadRequest)
          return
      }
      ...
      logger.Debug("POST proxy", ...)
      dest, err := extractDest(r.RequestURI)
      if err != nil {
          w.WriteHeader(http.StatusBadRequest)
          logger.Debug("extract destination failed", ...)
          return
      }
      if len(dest) == 0 {
          w.WriteHeader(http.StatusBadRequest)
          return
      }
      doRequest(w, "POST", dest, r.Header, strings.NewReader(r.Form.Encode()))
  }
  \<close>
  The loops left out format the headers and \<open>r.PostForm\<close> for the log.
  \<open>formOf r\<close> reads \<open>r.Form\<close>, which \<open>ParseForm\<close> has set (a \<open>nil\<close> map reads as
  the empty map).
\<close>

definition formOf :: "Request \<Rightarrow> Values" where
  "formOf r = (case Form r of None \<Rightarrow> [] | Some f \<Rightarrow> f)"

definition PostHandler :: "env \<Rightarrow> Request \<Rightarrow> event list" where
  "PostHandler env r0 =
     (case ParseForm env r0 of
        (r, Some err) \<Rightarrow>
          Log ErrorLevel ''parse form failed''
          # w_WriteHeader StatusBadRequest (\<lambda>wroteHeader. [])
      | (r, None) \<Rightarrow>
          Log DebugLevel ''POST proxy''
          # (case extractDest (RequestURI r) of
               (dest, Some err) \<Rightarrow>
                 w_WriteHeader StatusBadRequest
                   (\<lambda>wroteHeader. [Log DebugLevel ''extract destination failed''])
             | (dest, None) \<Rightarrow>
                 if length dest = 0 then w_WriteHeader StatusBadRequest (\<lambda>wroteHeader. [])
                 else doRequest env ''POST'' dest (Header r)
                        (Some (NewReader (Encode (formOf r))))))"

text \<open>
  What a run shows to the original caller and to the upstream: the status
  codes committed as the status of the response, the byte strings passed to
  \<open>Write\<close>, the requests passed to \<open>Do\<close>.
\<close>

fun statuses :: "event list \<Rightarrow> int list" where
  "statuses [] = []"
| "statuses (WriteHeader code # es) = code # statuses es"
| "statuses (e # es) = statuses es"


fun outbound :: "event list \<Rightarrow> Request list" where
  "outbound [] = []"
| "outbound (ClientDo req # es) = req # outbound es"
| "outbound (e # es) = outbound es"

subsection \<open>The server's life cycle\<close>

text \<open>
  \<open>ProxyServer\<close> with its fields. \<open>server\<close> is the instance handle: \<open>None\<close> is
  Go's \<open>nil\<close> (Stopped), \<open>Some\<close> a running \<open>http.Server\<close>, kept as its address,
  its keep-alive flag and the CORS lists its handler was built from. The
  router is the list of its routes: a method and the handler bound to it.
\<close>

datatype HandlerFunc = GetHandlerFunc | PostHandlerFunc

record Server =
  Addr :: string
  KeepAlivesEnabled :: bool
  corsHeaders :: "string list"
  corsOrigins :: "string list"
  corsMethods :: "string list"

record ProxyServer =
  localAddr :: string
  server :: "Server option"
  router :: "(string \<times> HandlerFunc) list"
  allowedHeaders :: "string list"
  allowedOrigins :: "string list"
  allowedMethods :: "string list"

definition getDefaultAllowedHeaders :: "string list" where
  "getDefaultAllowedHeaders = [''*'']"

definition getDefaultAllowedOrigins :: "string list" where
  "getDefaultAllowedOrigins = [''*'']"

definition getDefaultAllowedMethods :: "string list" where
  "getDefaultAllowedMethods = [''GET'', ''POST'']"

definition NewProxyServer :: "string \<Rightarrow> ProxyServer" where
  "NewProxyServer addr =
     \<lparr>localAddr = addr, server = None, router = [],
      allowedHeaders = getDefaultAllowedHeaders,
      allowedOrigins = getDefaultAllowedOrigins,
      allowedMethods = getDefaultAllowedMethods\<rparr>"

text \<open>
  A Go channel of \<open>bool\<close> (open, as the program never closes one): its
  capacity and the values waiting in its buffer. A send with no goroutine
  receiving on the channel completes when the buffer has room and blocks
  otherwise; \<open>send\<close> is that case, with \<open>None\<close> for a send that stays blocked.
\<close>

record chan =
  capacity :: nat
  buffer :: "bool list"

definition make_chan :: "nat \<Rightarrow> chan" where
  "make_chan n = \<lparr>capacity = n, buffer = []\<rparr>"

definition send :: "chan \<Rightarrow> bool \<Rightarrow> chan option" where
  "send ch v =
     (if length (buffer ch) < capacity ch then Some (ch\<lparr>buffer := buffer ch @ [v]\<rparr>) else None)"

text \<open>
  \<^verbatim>\<open>
  func (c *ProxyServer) Start(sigChan chan bool, keepalive bool) error {
      if c.server != nil {
          return errors.New("rest server already started")
      }
      ... one Info line for each allowed origin, header and method ...
      c.router.Methods("GET").HandlerFunc(GetHandler)
      c.router.Methods("POST").HandlerFunc(PostHandler)
      c.server = &http.Server{Addr: c.localAddr,
          Handler: handlers.CORS(headersOk, originsOk, methodsOk)(c.router)}
      c.server.SetKeepAlivesEnabled(keepalive)
      go func() { ... }()
      return nil
  }
  \<close>
  \<open>Start\<close> returns the updated instance, the error, and the calls made: the
  log lines and the launch of the listening task (\<open>GoListen\<close>, with the
  channel handed to it), whose body is \<open>listenTask\<close> below.
\<close>

datatype lifecycle_effect =
    LogInfo string
  | LogError string
  | GoListen "chan option"
  | ServerShutdown

definition Start ::
  "ProxyServer \<Rightarrow> chan option \<Rightarrow> bool
     \<Rightarrow> ProxyServer \<times> error option \<times> lifecycle_effect list" where
  "Start c sigChan keepalive =
     (if server c \<noteq> None then (c, Some (errors_New ''rest server already started''), [])
      else
        (c\<lparr>router := router c @ [(''GET'', GetHandlerFunc), (''POST'', PostHandlerFunc)],
           server := Some \<lparr>Addr = localAddr c, KeepAlivesEnabled = keepalive,
                           corsHeaders = allowedHeaders c, corsOrigins = allowedOrigins c,
                           corsMethods = allowedMethods c\<rparr>\<rparr>,
         None,
         map (\<lambda>site. LogInfo ''CORS allowed origins'') (allowedOrigins c)
         @ map (\<lambda>header. LogInfo ''CORS allowed headers'') (allowedHeaders c)
         @ map (\<lambda>method. LogInfo ''CORS allowed methods'') (allowedMethods c)
         @ [GoListen sigChan]))"

text \<open>
  \<^verbatim>\<open>
  func (c *ProxyServer) Shutdown() error {
      if c.server == nil {
          return errors.New("proxy server not started")
      }
      log.GetLogger().Info("proxy Server is shutting down", ...)
      ctx, _ := context.WithTimeout(context.Background(), 5*time.Second)
      if err := c.server.Shutdown(ctx); err != nil {
          log.GetLogger().Error("proxy Server shutdown failed", ...)
      } else {
          log.GetLogger().Info("proxy Server shutdown successful", ...)
      }
      c.server = nil
      return nil
  }
  \<close>
  What \<open>c.server.Shutdown(ctx)\<close> returns (\<open>nil\<close>, or an error such as the
  expiry of the five seconds) is the parameter \<open>shutdownResult\<close>.
\<close>

definition Shutdown ::
  "ProxyServer \<Rightarrow> error option \<Rightarrow> ProxyServer \<times> error option \<times> lifecycle_effect list" where
  "Shutdown c shutdownResult =
     (if server c = None then (c, Some (errors_New ''proxy server not started''), [])
      else
        (c\<lparr>server := None\<rparr>,
         None,
         [LogInfo ''proxy Server is shutting down'', ServerShutdown,
          (case shutdownResult of
             Some err \<Rightarrow> LogError ''proxy Server shutdown failed''
           | None \<Rightarrow> LogInfo ''proxy Server shutdown successful'')]))"

text \<open>
  The task launched by \<open>Start\<close>:
  \<^verbatim>\<open>
  go func() {
      log.GetLogger().Info("proxy server started", ...)
      if err := c.server.ListenAndServe(); err != nil {
          log.GetLogger().Info("proxy Server stopped", ...)
          if sigChan != nil {
              sigChan <- true
          }
      }
  }()
  \<close>
  \<open>listenTask serveResult sigChan\<close> is the task from the moment
  \<open>ListenAndServe\<close> returns \<open>serveResult\<close>, on a channel that nobody receives
  from: the result is \<open>None\<close> when the task stays blocked in its send, and
  otherwise the channel as the task leaves it (\<open>sigChan\<close> may be \<open>nil\<close>).
  The two log lines of the task are left out.
\<close>

definition listenTask :: "error option \<Rightarrow> chan option \<Rightarrow> chan option option" where
  "listenTask serveResult sigChan =
     (case serveResult of
        None \<Rightarrow> Some sigChan
      | Some err \<Rightarrow>
          (case sigChan of
             None \<Rightarrow> Some None
           | Some ch \<Rightarrow>
               (case send ch True of
                  None \<Rightarrow> None
                | Some ch' \<Rightarrow> Some (Some ch'))))"

text \<open>
  The owner of an instance makes calls one after the other. \<open>call\<close> is one call
  of \<open>Start\<close> or \<open>Shutdown\<close> with what it returns, \<open>calls\<close> a sequence of them on
  the same instance, with the list of the errors returned.
\<close>

datatype lifecycle_call = CallStart "chan option" bool | CallShutdown "error option"

fun call :: "ProxyServer \<Rightarrow> lifecycle_call \<Rightarrow> ProxyServer \<times> error option" where
  "call c (CallStart sigChan keepalive) =
     (fst (Start c sigChan keepalive), fst (snd (Start c sigChan keepalive)))"
| "call c (CallShutdown shutdownResult) =
     (fst (Shutdown c shutdownResult), fst (snd (Shutdown c shutdownResult)))"

fun calls :: "ProxyServer \<Rightarrow> lifecycle_call list \<Rightarrow> ProxyServer \<times> error option list" where
  "calls c [] = (c, [])"
| "calls c (x # xs) =
     (fst (calls (fst (call c x)) xs), snd (call c x) # snd (calls (fst (call c x)) xs))"

text \<open>
  The machine of the specification, in its words: two states; \<open>Start\<close> is valid
  only from Stopped and fails with \<open>AlreadyStartedError\<close> while Running;
  \<open>Shutdown\<close> is valid only from Running, fails with \<open>NotStartedError\<close> while
  Stopped, and always leaves the machine Stopped. \<open>state_of\<close> reads the state
  off the instance handle.
\<close>

datatype lifecycle_state = Stopped | Running

definition AlreadyStartedError :: error where
  "AlreadyStartedError = errors_New ''rest server already started''"

definition NotStartedError :: error where
  "NotStartedError = errors_New ''proxy server not started''"

fun spec_step :: "lifecycle_state \<Rightarrow> lifecycle_call \<Rightarrow> lifecycle_state \<times> error option" where
  "spec_step Stopped (CallStart sigChan keepalive) = (Running, None)"
| "spec_step Running (CallStart sigChan keepalive) = (Running, Some AlreadyStartedError)"
| "spec_step Running (CallShutdown shutdownResult) = (Stopped, None)"
| "spec_step Stopped (CallShutdown shutdownResult) = (Stopped, Some NotStartedError)"

fun spec_steps ::
  "lifecycle_state \<Rightarrow> lifecycle_call list \<Rightarrow> lifecycle_state \<times> error option list" where
  "spec_steps s [] = (s, [])"
| "spec_steps s (x # xs) =
     (fst (spec_steps (fst (spec_step s x)) xs),
      snd (spec_step s x) # snd (spec_steps (fst (spec_step s x)) xs))"

definition state_of :: "ProxyServer \<Rightarrow> lifecycle_state" where
  "state_of c = (if server c = None then Stopped else Running)"

subsection \<open>Example surroundings\<close>

text \<open>
  \<open>stubUpstream code body\<close>: an upstream that answers every request with the
  given status and body; content types come without parameters, every
  destination parses, and the caller takes every byte written.
\<close>

definition stubUpstream :: "int \<Rightarrow> string \<Rightarrow> env" where
  "stubUpstream code body =
     \<lparr>mime_ParseMediaType = (\<lambda>ct. (ct, None)),
      url_Parse_error = (\<lambda>u. None),
      client_Do = (\<lambda>req. Inr \<lparr>StatusCode = code, resp_Body = NewReader body\<rparr>),
      w_Write = (\<lambda>b. None)\<rparr>"

section \<open>Properties of \<open>extractDest\<close>\<close>

lemma Index_zero_iff: "Index s substr = 0 \<longleftrightarrow> HasPrefix s substr"
proof (cases s)
  case Nil
  then show ?thesis by (auto simp: HasPrefix_def)
next
  case (Cons c t)
  have "Index t substr = - 1 \<or> 0 \<le> Index t substr" by (rule Index_range)
  with Cons show ?thesis by (auto simp: Let_def)
qed

lemma HasPrefix_iff_prefix: "HasPrefix s pre \<longleftrightarrow> prefix pre s"
proof
  assume "HasPrefix s pre"
  then have "s = pre @ drop (length pre) s"
    by (metis HasPrefix_def append_take_drop_id)
  then show "prefix pre s" by (metis prefixI)
next
  assume "prefix pre s"
  then show "HasPrefix s pre" by (auto simp: HasPrefix_def prefix_def)
qed

lemma Count_nonneg: "0 \<le> Count s substr"
proof (induction s substr rule: Count.induct)
  case (1 s substr)
  show ?case
  proof (cases "substr = [] \<or> Index s substr = - 1")
    case True
    then show ?thesis by (subst Count.simps) auto
  next
    case False
    with "1.IH" [of "Index s substr"] show ?thesis
      by (subst Count.simps) (simp add: Let_def)
  qed
qed

lemma Count_prefixed: "pre \<noteq> [] \<Longrightarrow> 1 \<le> Count (pre @ s) pre"
proof -
  assume ne: "pre \<noteq> []"
  have "HasPrefix (pre @ s) pre" by (simp add: HasPrefix_def)
  then have z: "Index (pre @ s) pre = 0" by (simp add: Index_zero_iff)
  have "Count (pre @ s) pre = 1 + Count s pre"
    using ne z by (subst Count.simps) simp
  with Count_nonneg [of s pre] show ?thesis by simp
qed

lemma Replace_prefix_once:
  assumes "pre \<noteq> []"
  shows "Replace (pre @ s) pre [] 1 = s"
proof -
  have "HasPrefix (pre @ s) pre" by (simp add: HasPrefix_def)
  then have z: "Index (pre @ s) pre = 0" by (simp add: Index_zero_iff)
  have c: "1 \<le> Count (pre @ s) pre" using assms by (rule Count_prefixed)
  then have n: "nat (if (1::int) < 0 \<or> Count (pre @ s) pre < 1 then Count (pre @ s) pre else 1) = Suc 0"
    by simp
  have "replaceLoop (pre @ s) pre [] (Suc 0) True = s"
    using assms z by simp
  with assms c n show ?thesis
    by (simp add: Replace_def Let_def)
qed

lemma extractDest_HasPrefix:
  assumes "HasPrefix path ''/proxy/''"
  shows "extractDest path = (drop 7 path, None)"
proof -
  have len: "length ''/proxy/'' = 7" by simp
  from assms have "take (length ''/proxy/'') path = ''/proxy/''"
    unfolding HasPrefix_def by blast
  then have "take 7 path = ''/proxy/''" unfolding len .
  then have path: "path = ''/proxy/'' @ drop 7 path"
    by (metis append_take_drop_id)
  from assms have "Index path ''/proxy/'' = 0" by (simp only: Index_zero_iff)
  moreover have "Replace (''/proxy/'' @ drop 7 path) ''/proxy/'' [] 1 = drop 7 path"
    by (rule Replace_prefix_once) simp
  with path have "Replace path ''/proxy/'' [] 1 = drop 7 path" by simp
  ultimately show ?thesis by (simp add: extractDest_def)
qed

text \<open>
  C1. For every string \<open>s\<close>, \<open>extractDest\<close> succeeds on \<open>"/proxy/" + s\<close> and
  returns exactly \<open>s\<close>: the prefix is removed once and the rest is passed
  through unchanged, whatever it contains (further occurrences of
  \<open>"/proxy/"\<close> included).
\<close>

theorem extractDest_roundtrip: "extractDest (''/proxy/'' @ s) = (s, None)"
proof -
  have "HasPrefix (''/proxy/'' @ s) ''/proxy/''" by (simp add: HasPrefix_def)
  then have "Index (''/proxy/'' @ s) ''/proxy/'' = 0" by (simp only: Index_zero_iff)
  moreover have "Replace (''/proxy/'' @ s) ''/proxy/'' [] 1 = s"
    by (rule Replace_prefix_once) simp
  ultimately show ?thesis by (simp only: extractDest_def) simp
qed

text \<open>
  C2. For every path that does not start with \<open>"/proxy/"\<close>, \<open>extractDest\<close>
  returns the error \<open>unknown path\<close> together with an empty destination.
\<close>

theorem extractDest_unknown_path:
  "\<not> prefix ''/proxy/'' p \<Longrightarrow> extractDest p = ('''', Some (errors_New ''unknown path''))"
proof -
  assume "\<not> prefix ''/proxy/'' p"
  then have "\<not> HasPrefix p ''/proxy/''" unfolding HasPrefix_iff_prefix .
  then have "Index p ''/proxy/'' \<noteq> 0" unfolding Index_zero_iff .
  then show ?thesis by (simp only: extractDest_def) simp
qed

theorem extractDest_unknown_path_witness:
  "\<not> prefix ''/proxy/'' ''/api/proxy/x''
   \<and> extractDest ''/api/proxy/x'' = ('''', Some (errors_New ''unknown path''))"
proof -
  have h: "\<not> prefix ''/proxy/'' ''/api/proxy/x''" by simp
  show ?thesis using h extractDest_unknown_path [OF h] by simp
qed

section \<open>Properties of the handlers\<close>

lemma parseFormStep_keeps:
  "RequestURI (fst (parseFormStep r err)) = RequestURI r"
  "Header (fst (parseFormStep r err)) = Header r"
  by (simp_all add: parseFormStep_def Let_def)

lemma parsePostFormStep_keeps:
  "RequestURI (fst (parsePostFormStep env r)) = RequestURI r"
  "Header (fst (parsePostFormStep env r)) = Header r"
  by (simp_all add: parsePostFormStep_def Let_def)

lemma ParseForm_keeps:
  "RequestURI (fst (ParseForm env r)) = RequestURI r"
  "Header (fst (ParseForm env r)) = Header r"
  by (simp_all add: ParseForm_def Let_def parseFormStep_keeps parsePostFormStep_keeps)

lemma w_WriteHeader_400: "w_WriteHeader StatusBadRequest rest = WriteHeader 400 # rest True"
  by (simp add: w_WriteHeader_def StatusBadRequest_def StatusSwitchingProtocols_def)


lemma w_WriteHeader_final:
  "code = 101 \<or> (200 \<le> code \<and> code \<le> 999) \<Longrightarrow>
   w_WriteHeader code rest = WriteHeader code # rest True"
  by (auto simp: w_WriteHeader_def StatusSwitchingProtocols_def)


text \<open>
  C3. \<open>extractDest\<close> succeeds on \<open>"/proxy/"\<close> with the empty string; and for
  every request whose extracted destination is empty, the GET handler and the
  POST handler both answer 400 and make no call to the upstream.
\<close>

theorem empty_destination_rejected:
  "extractDest ''/proxy/'' = ('''', None)
   \<and> (\<forall>env r. extractDest (RequestURI r) = ('''', None) \<longrightarrow>
         statuses (GetHandler env r) = [400] \<and> outbound (GetHandler env r) = []
         \<and> statuses (PostHandler env r) = [400] \<and> outbound (PostHandler env r) = [])"
proof (intro conjI allI impI)
  have "HasPrefix ''/proxy/'' ''/proxy/''" by (simp add: HasPrefix_def)
  then have "Index ''/proxy/'' ''/proxy/'' = 0" by (simp only: Index_zero_iff)
  moreover have "Replace (''/proxy/'' @ []) ''/proxy/'' [] 1 = []"
    by (rule Replace_prefix_once) simp
  ultimately show "extractDest ''/proxy/'' = ('''', None)"
    by (simp add: extractDest_def)
next
  fix env :: env and r :: Request
  assume empty: "extractDest (RequestURI r) = ('''', None)"
  then have get: "GetHandler env r = [Log DebugLevel ''GET proxy'', WriteHeader 400]"
    by (simp add: GetHandler_def w_WriteHeader_400)
  show "statuses (GetHandler env r) = [400]" by (simp add: get)
  show "outbound (GetHandler env r) = []" by (simp add: get)
  obtain r' err where pf: "ParseForm env r = (r', err)" by (cases "ParseForm env r")
  then have "RequestURI r' = RequestURI r" using ParseForm_keeps(1) [of env r] by simp
  with empty have fw: "extractDest (RequestURI r') = ('''', None)" by simp
  have post: "PostHandler env r = [Log ErrorLevel ''parse form failed'', WriteHeader 400]
      \<or> PostHandler env r = [Log DebugLevel ''POST proxy'', WriteHeader 400]"
    by (cases err) (simp_all add: PostHandler_def pf fw w_WriteHeader_400)
  from post show "statuses (PostHandler env r) = [400]" by auto
  from post show "outbound (PostHandler env r) = []" by auto
qed

theorem empty_destination_rejected_witness:
  "extractDest (RequestURI (readRequest ''POST'' ''/proxy/'' [] (NewReader ''a=1''))) = ('''', None)
   \<and> statuses (GetHandler (stubUpstream 201 ''hi'')
         (readRequest ''POST'' ''/proxy/'' [] (NewReader ''a=1''))) = [400]
   \<and> outbound (GetHandler (stubUpstream 201 ''hi'')
         (readRequest ''POST'' ''/proxy/'' [] (NewReader ''a=1''))) = []
   \<and> statuses (PostHandler (stubUpstream 201 ''hi'')
         (readRequest ''POST'' ''/proxy/'' [] (NewReader ''a=1''))) = [400]
   \<and> outbound (PostHandler (stubUpstream 201 ''hi'')
         (readRequest ''POST'' ''/proxy/'' [] (NewReader ''a=1''))) = []"
proof -
  have h: "extractDest (RequestURI (readRequest ''POST'' ''/proxy/'' [] (NewReader ''a=1'')))
      = ('''', None)"
    using empty_destination_rejected by (simp add: readRequest_def)
  from empty_destination_rejected h show ?thesis by blast
qed







subsection \<open>Maps\<close>

lemma index_Nil: "index [] k = []"
  by (simp add: index_def)

lemma index_Cons: "index ((k0, vs0) # m) k = (if k = k0 then vs0 else index m k)"
  by (simp add: index_def)

lemma index_assign: "index (assign m k vs) k' = (if k' = k then vs else index m k')"
proof (induction m)
  case Nil
  then show ?case by (simp add: index_Cons index_Nil)
next
  case (Cons p m)
  obtain k0 vs0 where p: "p = (k0, vs0)" by (cases p)
  from Cons show ?case by (auto simp: p index_Cons)
qed

lemma keys_assign: "fst ` set (assign m k vs) = insert k (fst ` set m)"
proof (induction m)
  case Nil
  then show ?case by simp
next
  case (Cons p m)
  obtain k0 vs0 where p: "p = (k0, vs0)" by (cases p)
  show ?case
  proof (cases "k0 = k")
    case True
    then show ?thesis by (simp add: p)
  next
    case False
    with Cons show ?thesis by (simp add: p insert_commute)
  qed
qed

lemma distinct_assign: "distinct (map fst m) \<Longrightarrow> distinct (map fst (assign m k vs))"
proof (induction m)
  case Nil
  then show ?case by simp
next
  case (Cons p m)
  obtain k0 vs0 where p: "p = (k0, vs0)" by (cases p)
  show ?case
  proof (cases "k0 = k")
    case True
    with Cons.prems show ?thesis by (simp add: p)
  next
    case False
    with Cons keys_assign [of m k vs] show ?thesis by (simp add: p)
  qed
qed

lemma index_missing: "k \<notin> fst ` set m \<Longrightarrow> index m k = []"
  by (simp add: index_def map_of_eq_None_iff [THEN iffD2])

lemma index_key: "v \<in> set (index m k) \<Longrightarrow> k \<in> fst ` set m"
  using index_missing [of k m] by fastforce

lemma copyValues_Nil: "copyValues dst [] = dst"
  by (simp add: copyValues_def)

lemma copyValues_Cons:
  "copyValues dst ((k, vs) # src) = copyValues (assign dst k (index dst k @ vs)) src"
  by (simp add: copyValues_def)

lemma index_copyValues:
  "distinct (map fst src) \<Longrightarrow> index (copyValues dst src) k = index dst k @ index src k"
proof (induction src arbitrary: dst)
  case Nil
  then show ?case by (simp add: copyValues_Nil index_Nil)
next
  case (Cons p src)
  obtain k0 vs0 where p: "p = (k0, vs0)" by (cases p)
  from Cons.prems p have fresh: "k0 \<notin> fst ` set src" and d: "distinct (map fst src)"
    by auto
  have "index (copyValues dst (p # src)) k
      = index (assign dst k0 (index dst k0 @ vs0)) k @ index src k"
    using Cons.IH [OF d] by (simp add: p copyValues_Cons)
  also have "\<dots> = index dst k @ index (p # src) k"
  proof (cases "k = k0")
    case True
    with fresh have "index src k = []" by (simp add: index_missing)
    with True show ?thesis by (simp add: index_assign p index_Cons)
  next
    case False
    then show ?thesis by (simp add: index_assign p index_Cons)
  qed
  finally show ?case .
qed

lemma distinct_copyValues:
  "distinct (map fst dst) \<Longrightarrow> distinct (map fst (copyValues dst src))"
proof (induction src arbitrary: dst)
  case Nil
  then show ?case by (simp add: copyValues_Nil)
next
  case (Cons p src)
  obtain k0 vs0 where p: "p = (k0, vs0)" by (cases p)
  from Cons.prems have "distinct (map fst (assign dst k0 (index dst k0 @ vs0)))"
    by (rule distinct_assign)
  then show ?case unfolding p copyValues_Cons by (rule Cons.IH)
qed

lemma distinct_parseQuery:
  "distinct (map fst m) \<Longrightarrow> distinct (map fst (fst (parseQuery m err query)))"
proof (induction "length query" arbitrary: m err query rule: less_induct)
  case less
  show ?case
  proof (cases "query = []")
    case True
    with less.prems parseQuery.simps [of m err query] show ?thesis by simp
  next
    case False
    define key where "key = fst (Cut query ''&'')"
    define rest where "rest = fst (snd (Cut query ''&''))"
    define k where "k = fst (Cut key ''='')"
    define v where "v = fst (snd (Cut key ''=''))"
    from False have "length rest < length query"
      unfolding rest_def by (simp add: Cut_after_shorter)
    then have IH: "\<And>m' err'. distinct (map fst m') \<Longrightarrow>
        distinct (map fst (fst (parseQuery m' err' rest)))"
      using less.hyps by blast
    have eq: "parseQuery m err query =
      (if Contains key '';'' then
         parseQuery m (Some (errors_New ''invalid semicolon separator in query'')) rest
       else if key = [] then parseQuery m err rest
       else (case QueryUnescape k of
               (_, Some err1) \<Rightarrow> parseQuery m (firstError err (Some err1)) rest
             | (k', None) \<Rightarrow>
                 (case QueryUnescape v of
                    (_, Some err1) \<Rightarrow> parseQuery m (firstError err (Some err1)) rest
                  | (v', None) \<Rightarrow> parseQuery (assign m k' (index m k' @ [v'])) err rest)))"
      using False parseQuery.simps [of m err query]
      by (simp add: Let_def key_def rest_def k_def v_def)
    show ?thesis
      unfolding eq
      by (simp add: IH less.prems distinct_assign split: prod.split option.split)
  qed
qed

lemma distinct_ParseQuery: "distinct (map fst (fst (ParseQuery query)))"
  unfolding ParseQuery_def by (rule distinct_parseQuery) simp

subsection \<open>\<open>Encode\<close>\<close>

lemma encodeValue_form:
  "\<exists>t. encodeValue ke buf v = buf @ t @ ke @ ''='' @ QueryEscape v"
  by (cases "buf = []") (simp_all add: encodeValue_def)

lemma encodeValue_keeps: "sublist s buf \<Longrightarrow> sublist s (encodeValue ke buf v)"
proof -
  assume "sublist s buf"
  then obtain ps ss where "buf = ps @ s @ ss" by (auto simp: sublist_def)
  moreover obtain t where "encodeValue ke buf v = buf @ t @ ke @ ''='' @ QueryEscape v"
    using encodeValue_form by blast
  ultimately have "encodeValue ke buf v = ps @ s @ (ss @ t @ ke @ ''='' @ QueryEscape v)"
    by simp
  then show ?thesis unfolding sublist_def by blast
qed

lemma encodeValue_has: "sublist (ke @ ''='' @ QueryEscape v) (encodeValue ke buf v)"
proof -
  obtain t where "encodeValue ke buf v = buf @ t @ ke @ ''='' @ QueryEscape v"
    using encodeValue_form by blast
  then have "encodeValue ke buf v = (buf @ t) @ (ke @ ''='' @ QueryEscape v) @ []"
    by simp
  then show ?thesis unfolding sublist_def by blast
qed

lemma foldl_encodeValue_keeps:
  "sublist s buf \<Longrightarrow> sublist s (foldl (encodeValue ke) buf vs)"
  by (induction vs arbitrary: buf) (simp_all add: encodeValue_keeps)

lemma foldl_encodeValue_has:
  "v \<in> set vs \<Longrightarrow> sublist (ke @ ''='' @ QueryEscape v) (foldl (encodeValue ke) buf vs)"
proof (induction vs arbitrary: buf)
  case Nil
  then show ?case by simp
next
  case (Cons x vs)
  show ?case
  proof (cases "v = x")
    case True
    have "sublist (ke @ ''='' @ QueryEscape x) (foldl (encodeValue ke) (encodeValue ke buf x) vs)"
      by (rule foldl_encodeValue_keeps) (rule encodeValue_has)
    then show ?thesis unfolding True foldl_Cons .
  next
    case False
    with Cons show ?thesis by simp
  qed
qed

lemma foldl_encodeKey_keeps:
  "sublist s buf \<Longrightarrow> sublist s (foldl (encodeKey m) buf ks)"
  by (induction ks arbitrary: buf) (simp_all add: encodeKey_def foldl_encodeValue_keeps)

lemma foldl_encodeKey_has:
  "k \<in> set ks \<Longrightarrow> v \<in> set (index m k) \<Longrightarrow>
   sublist (QueryEscape k @ ''='' @ QueryEscape v) (foldl (encodeKey m) buf ks)"
proof (induction ks arbitrary: buf)
  case Nil
  then show ?case by simp
next
  case (Cons x ks)
  show ?case
  proof (cases "k = x")
    case True
    from Cons.prems(2) have "sublist (QueryEscape k @ ''='' @ QueryEscape v)
        (foldl (encodeValue (QueryEscape k)) buf (index m k))"
      by (rule foldl_encodeValue_has)
    then have "sublist (QueryEscape k @ ''='' @ QueryEscape v) (encodeKey m buf k)"
      unfolding encodeKey_def .
    then have "sublist (QueryEscape k @ ''='' @ QueryEscape v)
        (foldl (encodeKey m) (encodeKey m buf k) ks)"
      by (rule foldl_encodeKey_keeps)
    then show ?thesis unfolding True [symmetric] foldl_Cons .
  next
    case False
    with Cons show ?thesis by simp
  qed
qed

lemma set_insertString: "set (insertString k ks) = insert k (set ks)"
  by (induction ks) auto

lemma set_sortStrings: "set (sortStrings ks) = set ks"
  by (induction ks) (simp_all add: set_insertString)

lemma Encode_has:
  assumes "v \<in> set (index m k)"
  shows "sublist (QueryEscape k @ ''='' @ QueryEscape v) (Encode m)"
proof -
  from assms have key: "k \<in> fst ` set m" by (rule index_key)
  then have "m \<noteq> []" by auto
  then have enc: "Encode m = foldl (encodeKey m) [] (sortStrings (map fst m))"
    by (simp add: Encode_def)
  from key have "k \<in> set (sortStrings (map fst m))" by (simp add: set_sortStrings)
  then show ?thesis unfolding enc using assms by (rule foldl_encodeKey_has)
qed

subsection \<open>Decoding what \<open>Encode\<close> writes\<close>

lemma Index_single_absent: "c \<notin> set s \<Longrightarrow> Index s [c] = - 1"
  by (induction s) (auto simp: HasPrefix_def Let_def)

lemma Index_single_first: "c \<notin> set a \<Longrightarrow> Index (a @ c # b) [c] = int (length a)"
  by (induction a) (auto simp: HasPrefix_def Let_def)

lemma Cut_single_absent: "c \<notin> set s \<Longrightarrow> Cut s [c] = (s, [], False)"
  by (simp add: Cut_def Index_single_absent)

lemma Cut_single_first: "c \<notin> set a \<Longrightarrow> Cut (a @ c # b) [c] = (a, b, True)"
  by (simp add: Cut_def Index_single_first)

lemma Contains_single_absent: "c \<notin> set s \<Longrightarrow> \<not> Contains s [c]"
  by (simp add: Contains_def Index_single_absent)

lemma of_char_less_256: "(of_char c :: nat) < 256"
proof -
  have "(of_char c :: nat) mod 256 < 256" by simp
  then show ?thesis by (simp only: of_char_mod_256)
qed

lemma hex_digit_cases:
  assumes "d < (16::nat)"
  shows "d = 0 \<or> d = 1 \<or> d = 2 \<or> d = 3 \<or> d = 4 \<or> d = 5 \<or> d = 6 \<or> d = 7
    \<or> d = 8 \<or> d = 9 \<or> d = 10 \<or> d = 11 \<or> d = 12 \<or> d = 13 \<or> d = 14 \<or> d = 15"
  using assms by arith

lemma upperhex_roundtrip: "d < 16 \<Longrightarrow> ishex (upperhex d) \<and> unhex (upperhex d) = d"
  using hex_digit_cases [of d]
  by (auto simp: upperhex_def ishex_def unhex_def)

lemma upperhex_plain:
  "d < 16 \<Longrightarrow> upperhex d \<noteq> CHR ''&'' \<and> upperhex d \<noteq> CHR ''='' \<and> upperhex d \<noteq> CHR '';''"
  using hex_digit_cases [of d]
  by (auto simp: upperhex_def)

lemma shouldEscape_separators:
  "shouldEscape CHR ''&''" "shouldEscape CHR ''=''" "shouldEscape CHR '';''"
  "shouldEscape CHR ''%''" "shouldEscape CHR ''+''"
  by (simp_all add: shouldEscape_def)

lemma QueryEscape_plain:
  "c \<in> set (QueryEscape s) \<Longrightarrow> c \<noteq> CHR ''&'' \<and> c \<noteq> CHR ''='' \<and> c \<noteq> CHR '';''"
proof (induction s)
  case Nil
  then show ?case by simp
next
  case (Cons x s)
  have hi: "(of_char x :: nat) div 16 < 16" using of_char_less_256 [of x] by arith
  have lo: "(of_char x :: nat) mod 16 < 16" by simp
  show ?case
  proof (cases "shouldEscape x")
    case True
    with Cons upperhex_plain [OF hi] upperhex_plain [OF lo] show ?thesis
      by (auto split: if_splits)
  next
    case False
    with Cons shouldEscape_separators show ?thesis by auto
  qed
qed

lemma unescape_Nil: "unescape [] = Inr []"
  by (subst unescape.simps) simp

lemma unescape_plain:
  "c \<noteq> CHR ''%'' \<Longrightarrow> unescape t = Inr u \<Longrightarrow>
   unescape (c # t) = Inr ((if c = CHR ''+'' then CHR '' '' else c) # u)"
  by (subst unescape.simps) simp

lemma unescape_percent:
  "ishex h1 \<Longrightarrow> ishex h2 \<Longrightarrow> unescape t = Inr u \<Longrightarrow>
   unescape (CHR ''%'' # h1 # h2 # t) = Inr (char_of (unhex h1 * 16 + unhex h2) # u)"
  by (subst unescape.simps) simp

lemma unescape_QueryEscape: "unescape (QueryEscape s) = Inr s"
proof (induction s)
  case Nil
  show ?case by (simp add: unescape_Nil)
next
  case (Cons x s)
  have hi: "(of_char x :: nat) div 16 < 16" using of_char_less_256 [of x] by arith
  have lo: "(of_char x :: nat) mod 16 < 16" by simp
  show ?case
  proof (cases "shouldEscape x")
    case False
    then have "x \<noteq> CHR ''%''" and "x \<noteq> CHR ''+''"
      using shouldEscape_separators by auto
    with False Cons.IH show ?thesis by (simp add: unescape_plain)
  next
    case True
    show ?thesis
    proof (cases "x = CHR '' ''")
      case space: True
      have "unescape (CHR ''+'' # QueryEscape s) = Inr (CHR '' '' # s)"
        using unescape_plain [of "CHR ''+''" "QueryEscape s" s] Cons.IH by simp
      with True space show ?thesis by simp
    next
      case other: False
      have "unescape (CHR ''%'' # upperhex (of_char x div 16) # upperhex (of_char x mod 16)
            # QueryEscape s)
          = Inr (char_of (unhex (upperhex (of_char x div 16)) * 16
                 + unhex (upperhex (of_char x mod 16))) # s)"
        using upperhex_roundtrip [OF hi] upperhex_roundtrip [OF lo] Cons.IH
        by (intro unescape_percent) simp_all
      also have "unhex (upperhex (of_char x div 16)) * 16 + unhex (upperhex (of_char x mod 16))
          = (of_char x :: nat)"
        using upperhex_roundtrip [OF hi] upperhex_roundtrip [OF lo] by simp
      finally show ?thesis using True other by simp
    qed
  qed
qed

lemma QueryUnescape_QueryEscape: "QueryUnescape (QueryEscape s) = (s, None)"
  by (simp add: QueryUnescape_def unescape_QueryEscape)

lemma encodedPair_plain:
  "CHR ''&'' \<notin> set (encodedPair p)" "CHR '';'' \<notin> set (encodedPair p)"
  using QueryEscape_plain [of "CHR ''&''"] QueryEscape_plain [of "CHR '';''"]
  by (auto simp: encodedPair_def)

lemma encodedPair_nonempty: "encodedPair p \<noteq> []"
  by (simp add: encodedPair_def)

lemma Cut_encodedPair:
  "Cut (encodedPair p) ''='' = (QueryEscape (fst p), QueryEscape (snd p), True)"
proof -
  have "CHR ''='' \<notin> set (QueryEscape (fst p))"
    using QueryEscape_plain [of "CHR ''=''" "fst p"] by blast
  then have "Cut (QueryEscape (fst p) @ CHR ''='' # QueryEscape (snd p)) [CHR ''='']
      = (QueryEscape (fst p), QueryEscape (snd p), True)"
    by (rule Cut_single_first)
  then show ?thesis by (simp add: encodedPair_def)
qed

text \<open>One round of the loop of \<open>parseQuery\<close>, on a query that begins with an encoded pair.\<close>

lemma parseQuery_encodedPair:
  assumes "query \<noteq> []"
    and "fst (Cut query ''&'') = encodedPair p"
    and "fst (snd (Cut query ''&'')) = rest"
  shows "parseQuery m err query =
     parseQuery (assign m (fst p) (index m (fst p) @ [snd p])) err rest"
proof -
  have semi: "\<not> Contains (encodedPair p) '';''"
    using encodedPair_plain(2) [of p] Contains_single_absent [of "CHR '';''" "encodedPair p"]
    by simp
  show ?thesis
    using assms semi encodedPair_nonempty [of p]
    by (subst parseQuery.simps)
       (simp add: Let_def Cut_encodedPair QueryUnescape_QueryEscape)
qed

lemma joinPairs_Cons:
  "joinPairs (p # ps) = (if ps = [] then encodedPair p else encodedPair p @ ''&'' @ joinPairs ps)"
  by (cases ps) simp_all

lemma Cut_joinPairs:
  "Cut (joinPairs (p # ps)) ''&'' = (encodedPair p, joinPairs ps, ps \<noteq> [])"
proof (cases "ps = []")
  case True
  then show ?thesis
    using Cut_single_absent [OF encodedPair_plain(1), of p] by simp
next
  case False
  then have "joinPairs (p # ps) = encodedPair p @ CHR ''&'' # joinPairs ps"
    by (simp add: joinPairs_Cons)
  with False show ?thesis
    using Cut_single_first [OF encodedPair_plain(1), of p "joinPairs ps"] by simp
qed

lemma joinPairs_nonempty: "joinPairs (p # ps) \<noteq> []"
  by (simp add: joinPairs_Cons encodedPair_nonempty)

lemma parseQuery_Nil: "parseQuery m err [] = (m, err)"
  by (subst parseQuery.simps) simp

lemma parseQuery_joinPairs:
  "parseQuery m err (joinPairs ps) =
     (foldl (\<lambda>m p. assign m (fst p) (index m (fst p) @ [snd p])) m ps, err)"
proof (induction ps arbitrary: m)
  case Nil
  show ?case by (simp add: parseQuery_Nil)
next
  case (Cons p ps)
  have "parseQuery m err (joinPairs (p # ps)) =
      parseQuery (assign m (fst p) (index m (fst p) @ [snd p])) err (joinPairs ps)"
    by (rule parseQuery_encodedPair) (simp_all add: joinPairs_nonempty Cut_joinPairs)
  then show ?case by (simp add: Cons.IH)
qed

lemma index_foldl_assign:
  "index (foldl (\<lambda>m p. assign m (fst p) (index m (fst p) @ [snd p])) m ps) k =
     index m k @ map snd (filter (\<lambda>p. fst p = k) ps)"
proof (induction ps arbitrary: m)
  case Nil
  show ?case by simp
next
  case (Cons p ps)
  show ?case by (simp add: Cons.IH index_assign)
qed

lemma formPairs_Nil: "formPairs v [] = []"
  by (simp add: formPairs_def)

lemma formPairs_Cons: "formPairs v (k # ks) = map (\<lambda>x. (k, x)) (index v k) @ formPairs v ks"
  by (simp add: formPairs_def)

lemma filter_formPairs_other:
  "k \<notin> set ks \<Longrightarrow> filter (\<lambda>p. fst p = k) (formPairs v ks) = []"
  by (induction ks) (auto simp: formPairs_Nil formPairs_Cons filter_empty_conv)

lemma values_formPairs:
  "distinct ks \<Longrightarrow>
   map snd (filter (\<lambda>p. fst p = k) (formPairs v ks)) = (if k \<in> set ks then index v k else [])"
proof (induction ks)
  case Nil
  show ?case by (simp add: formPairs_Nil)
next
  case (Cons x ks)
  show ?case
  proof (cases "x = k")
    case True
    with Cons.prems have "k \<notin> set ks" by simp
    then have "filter (\<lambda>p. fst p = k) (formPairs v ks) = []" by (rule filter_formPairs_other)
    with True show ?thesis by (simp add: formPairs_Cons comp_def)
  next
    case False
    then have "filter (\<lambda>p. fst p = k) (map (\<lambda>y. (x, y)) (index v x)) = []"
      by (simp add: filter_empty_conv)
    with False Cons show ?thesis by (simp add: formPairs_Cons)
  qed
qed

lemma distinct_insertString:
  "distinct ks \<Longrightarrow> k \<notin> set ks \<Longrightarrow> distinct (insertString k ks)"
  by (induction ks) (auto simp: set_insertString)

lemma distinct_sortStrings: "distinct ks \<Longrightarrow> distinct (sortStrings ks)"
  by (induction ks) (simp_all add: distinct_insertString set_sortStrings)

text \<open>\<open>Encode\<close> writes the pairs of the map, joined.\<close>

lemma encodeValue_encodedPair:
  "encodeValue (QueryEscape k) buf x = (if buf = [] then [] else buf @ ''&'') @ encodedPair (k, x)"
  by (simp add: encodeValue_def encodedPair_def)

lemma foldl_encodeValue_joinPairs:
  "foldl (\<lambda>b p. encodeValue (QueryEscape (fst p)) b (snd p)) buf ps =
     (if ps = [] then buf else if buf = [] then joinPairs ps else buf @ ''&'' @ joinPairs ps)"
proof (induction ps arbitrary: buf)
  case Nil
  show ?case by simp
next
  case (Cons p ps)
  let ?b = "encodeValue (QueryEscape (fst p)) buf (snd p)"
  have b: "?b = (if buf = [] then [] else buf @ ''&'') @ encodedPair p"
    by (simp add: encodeValue_encodedPair)
  then have ne: "?b \<noteq> []" by (simp add: encodedPair_nonempty)
  have "foldl (\<lambda>b p. encodeValue (QueryEscape (fst p)) b (snd p)) buf (p # ps) =
      foldl (\<lambda>b p. encodeValue (QueryEscape (fst p)) b (snd p)) ?b ps"
    by simp
  also have "\<dots> = (if ps = [] then ?b else ?b @ ''&'' @ joinPairs ps)"
    by (subst Cons.IH) (simp add: ne)
  also have "\<dots> = (if buf = [] then joinPairs (p # ps) else buf @ ''&'' @ joinPairs (p # ps))"
    by (cases "buf = []") (simp_all add: encodeValue_encodedPair joinPairs_Cons)
  finally show ?case by simp
qed

lemma encodeKey_pairs:
  "encodeKey v buf k =
     foldl (\<lambda>b p. encodeValue (QueryEscape (fst p)) b (snd p)) buf (map (\<lambda>x. (k, x)) (index v k))"
  by (simp add: encodeKey_def foldl_map)

lemma foldl_encodeKey_pairs:
  "foldl (encodeKey v) buf ks =
     foldl (\<lambda>b p. encodeValue (QueryEscape (fst p)) b (snd p)) buf (formPairs v ks)"
  by (induction ks arbitrary: buf) (simp_all add: formPairs_Nil formPairs_Cons encodeKey_pairs)

lemma Encode_joinPairs: "Encode v = joinPairs (formPairs v (sortStrings (map fst v)))"
  by (cases "v = []")
     (simp_all add: Encode_def formPairs_Nil foldl_encodeKey_pairs foldl_encodeValue_joinPairs)

text \<open>
  \<open>url.ParseQuery\<close> reads back what \<open>Encode\<close> has written: no error, and under
  every key the values the map holds.
\<close>

lemma ParseQuery_Encode:
  assumes "distinct (map fst v)"
  shows "snd (ParseQuery (Encode v)) = None"
    and "index (fst (ParseQuery (Encode v))) k = index v k"
proof -
  let ?ks = "sortStrings (map fst v)"
  have parsed: "ParseQuery (Encode v) =
      (foldl (\<lambda>m p. assign m (fst p) (index m (fst p) @ [snd p])) [] (formPairs v ?ks), None)"
    by (simp add: ParseQuery_def Encode_joinPairs parseQuery_joinPairs)
  then show "snd (ParseQuery (Encode v)) = None" by simp
  from assms have d: "distinct ?ks" by (rule distinct_sortStrings)
  have "index (fst (ParseQuery (Encode v))) k = (if k \<in> set ?ks then index v k else [])"
    by (simp add: parsed index_foldl_assign index_Nil values_formPairs [OF d])
  also have "\<dots> = index v k"
    by (simp add: set_sortStrings index_missing)
  finally show "index (fst (ParseQuery (Encode v))) k = index v k" .
qed

subsection \<open>\<open>ParseForm\<close> and the POST handler\<close>

lemma firstError_None: "firstError None e = e"
  by (simp add: firstError_def)

lemma firstError_Some: "err \<noteq> None \<Longrightarrow> firstError err e \<noteq> None"
  by (auto simp: firstError_def)

lemma firstError_Some_right: "e \<noteq> None \<Longrightarrow> firstError err e \<noteq> None"
  by (auto simp: firstError_def)

lemma parsePostForm_urlencoded:
  assumes "Body r = Some (Reader b e)"
    and "Header_Get (Header r) ''Content-Type'' \<noteq> ''''"
    and "fst (mime_ParseMediaType env (Header_Get (Header r) ''Content-Type''))
           = ''application/x-www-form-urlencoded''"
  shows "parsePostForm env r =
     (let err = snd (mime_ParseMediaType env (Header_Get (Header r) ''Content-Type''))
      in if maxFormSize + 1 \<le> length b then (None, Some (errors_New ''http: POST too large''))
         else if e \<noteq> None then (None, firstError err e)
         else (Some (fst (ParseQuery b)), firstError err (snd (ParseQuery b))))"
proof (cases "maxFormSize + 1 \<le> length b")
  case True
  then have "LimitReader (Reader b e) (maxFormSize + 1) = Reader (take (maxFormSize + 1) b) None"
    by simp
  moreover from True have "maxFormSize < length (take (maxFormSize + 1) b)" by simp
  ultimately show ?thesis
    using assms True by (simp add: parsePostForm_def Let_def del: LimitReader.simps)
next
  case False
  then have lim: "LimitReader (Reader b e) (maxFormSize + 1) = Reader b e" by simp
  from False have small: "\<not> maxFormSize < length b" by simp
  show ?thesis
  proof (cases e)
    case None
    with assms False lim small show ?thesis
      by (simp add: parsePostForm_def Let_def del: LimitReader.simps)
  next
    case (Some e')
    with assms False lim show ?thesis
      by (simp add: parsePostForm_def Let_def del: LimitReader.simps)
  qed
qed

lemma parsePostForm_other:
  assumes "Body r = Some body"
    and "Header_Get (Header r) ''Content-Type'' \<noteq> ''''"
    and "fst (mime_ParseMediaType env (Header_Get (Header r) ''Content-Type''))
           \<noteq> ''application/x-www-form-urlencoded''"
  shows "parsePostForm env r =
     (None, snd (mime_ParseMediaType env (Header_Get (Header r) ''Content-Type'')))"
  using assms by (simp add: parsePostForm_def Let_def)

lemma distinct_parsePostForm:
  "fst (parsePostForm env r) = Some vs \<Longrightarrow> distinct (map fst vs)"
  using distinct_ParseQuery
  by (auto simp: parsePostForm_def Let_def split: option.splits prod.splits if_splits)

text \<open>
  \<open>ParseForm\<close> on a request as the server delivers it (no form parsed yet),
  for the methods that carry a form.
\<close>

lemma ParseForm_fresh:
  assumes "PostForm r = None" and "Form r = None" and "Method r = ''POST''"
  shows "ParseForm env r =
     (let post = (case fst (parsePostForm env r) of None \<Rightarrow> [] | Some vs \<Rightarrow> vs);
          query = fst (ParseQuery (RawQuery (URL r)))
      in (r\<lparr>PostForm := Some post,
            Form := Some (if 0 < length post then copyValues (copyValues [] post) query
                          else query)\<rparr>,
          firstError (snd (parsePostForm env r)) (snd (ParseQuery (RawQuery (URL r))))))"
  using assms by (simp add: ParseForm_def parsePostFormStep_def parseFormStep_def Let_def)

lemma index_ParseForm_fresh:
  assumes "PostForm r = None" and "Form r = None" and "Method r = ''POST''"
  shows "index (formOf (fst (ParseForm env r))) k =
           index (case fst (parsePostForm env r) of None \<Rightarrow> [] | Some vs \<Rightarrow> vs) k
           @ index (fst (ParseQuery (RawQuery (URL r)))) k"
proof -
  define post where "post = (case fst (parsePostForm env r) of None \<Rightarrow> [] | Some vs \<Rightarrow> vs)"
  define query where "query = fst (ParseQuery (RawQuery (URL r)))"
  have dq: "distinct (map fst query)" unfolding query_def by (rule distinct_ParseQuery)
  have dp: "distinct (map fst post)"
    unfolding post_def using distinct_parsePostForm [of env r]
    by (cases "fst (parsePostForm env r)") simp_all
  have form: "formOf (fst (ParseForm env r)) =
      (if 0 < length post then copyValues (copyValues [] post) query else query)"
    using ParseForm_fresh [OF assms, of env]
    by (simp add: Let_def formOf_def post_def query_def)
  show ?thesis
  proof (cases "post = []")
    case True
    with form show ?thesis
      unfolding post_def [symmetric] query_def [symmetric] by (simp add: index_Nil)
  next
    case False
    with form have "formOf (fst (ParseForm env r)) = copyValues (copyValues [] post) query"
      by simp
    then show ?thesis
      unfolding post_def [symmetric] query_def [symmetric]
      by (simp add: index_copyValues dq dp index_Nil)
  qed
qed

lemma outbound_append: "outbound (xs @ ys) = outbound xs @ outbound ys"
  by (induction xs rule: outbound.induct) simp_all

lemma outbound_w_WriteHeader:
  "(\<And>wroteHeader. outbound (rest wroteHeader) = []) \<Longrightarrow> outbound (w_WriteHeader code rest) = []"
  by (simp add: w_WriteHeader_def)

lemma outbound_response_Write: "outbound (response_Write wroteHeader b) = []"
  by (simp add: response_Write_def)

lemma outbound_doRequest:
  assumes "NewRequest env m dest b = Inr req"
  shows "outbound (doRequest env m dest h b) = [req\<lparr>Header := h\<rparr>]"
  using assms
  by (cases "client_Do env (req\<lparr>Header := h\<rparr>)")
     (auto simp: doRequest_def outbound_append outbound_w_WriteHeader outbound_response_Write
        split: prod.splits option.splits)

lemma NewRequest_POST:
  assumes "url_Parse_error env dest = None"
  shows "NewRequest env ''POST'' dest b =
     Inr \<lparr>Method = ''POST'', URL = Parse_ok dest, Header = [], Body = b,
          Form = None, PostForm = None, RequestURI = ''''\<rparr>"
  using assms by (simp add: NewRequest_def validMethod_def isTokenRune_def)

lemma PostHandler_parsed:
  assumes "ParseForm env r0 = (r, None)"
    and "extractDest (RequestURI r0) = (dest, None)" and "dest \<noteq> ''''"
  shows "PostHandler env r0 =
           Log DebugLevel ''POST proxy''
           # doRequest env ''POST'' dest (Header r0) (Some (NewReader (Encode (formOf r))))"
proof -
  from assms(1) have "RequestURI r = RequestURI r0" and "Header r = Header r0"
    using ParseForm_keeps [of env r0] by simp_all
  with assms show ?thesis by (simp add: PostHandler_def)
qed

lemma PostHandler_parse_error:
  assumes "snd (ParseForm env r0) \<noteq> None"
  shows "PostHandler env r0 = [Log ErrorLevel ''parse form failed'', WriteHeader 400]"
  using assms
  by (cases "ParseForm env r0") (auto simp: PostHandler_def w_WriteHeader_400)

lemma readRequest_fields:
  "Method (readRequest m target header body) = m"
  "RequestURI (readRequest m target header body) = target"
  "Header (readRequest m target header body) = header"
  "Body (readRequest m target header body) = Some body"
  "Form (readRequest m target header body) = None"
  "PostForm (readRequest m target header body) = None"
  "RawQuery (URL (readRequest m target header body)) = fst (snd (Cut target ''?''))"
  by (simp_all add: readRequest_def ParseRequestURI_ok_def)

lemma ParseForm_readRequest:
  "ParseForm env (readRequest ''POST'' target header body) =
     (let r = readRequest ''POST'' target header body;
          post = (case fst (parsePostForm env r) of None \<Rightarrow> [] | Some vs \<Rightarrow> vs);
          query = fst (ParseQuery (fst (snd (Cut target ''?''))))
      in (r\<lparr>PostForm := Some post,
            Form := Some (if 0 < length post then copyValues (copyValues [] post) query
                          else query)\<rparr>,
          firstError (snd (parsePostForm env r)) (snd (ParseQuery (fst (snd (Cut target ''?'')))))))"
  using ParseForm_fresh [of "readRequest ''POST'' target header body" env]
  by (simp add: readRequest_fields Let_def)

lemma distinct_formOf_ParseForm:
  assumes "PostForm r = None" and "Form r = None" and "Method r = ''POST''"
  shows "distinct (map fst (formOf (fst (ParseForm env r))))"
proof -
  define post where "post = (case fst (parsePostForm env r) of None \<Rightarrow> [] | Some vs \<Rightarrow> vs)"
  define query where "query = fst (ParseQuery (RawQuery (URL r)))"
  have dq: "distinct (map fst query)" unfolding query_def by (rule distinct_ParseQuery)
  have "distinct (map fst (copyValues [] post))" by (rule distinct_copyValues) simp
  then have dc: "distinct (map fst (copyValues (copyValues [] post) query))"
    by (rule distinct_copyValues)
  have "formOf (fst (ParseForm env r)) =
      (if 0 < length post then copyValues (copyValues [] post) query else query)"
    using ParseForm_fresh [OF assms, of env]
    by (simp add: Let_def formOf_def post_def query_def)
  with dq dc show ?thesis by simp
qed

text \<open>
  C6. For every POST request that passes form parsing and destination
  extraction, the handler forwards with the inbound headers as they are and
  with a body that is the URL-encoding of the form \<open>ParseForm\<close> has stored in
  the request, not the raw inbound body: the body is \<open>Encode\<close> of that form,
  and \<open>url.ParseQuery\<close> reads it back without error to the values of that
  form under every key.
\<close>

theorem PostHandler_forwards_encoded_form:
  assumes "inbound = readRequest ''POST'' target header body"
    and "ParseForm env inbound = (r, None)"
    and "extractDest target = (dest, None)" and "dest \<noteq> ''''"
  shows "PostHandler env inbound =
           Log DebugLevel ''POST proxy''
           # doRequest env ''POST'' dest header (Some (NewReader (Encode (formOf r))))
         \<and> (url_Parse_error env dest = None \<longrightarrow>
              outbound (PostHandler env inbound) =
                [\<lparr>Method = ''POST'', URL = Parse_ok dest, Header = header,
                  Body = Some (NewReader (Encode (formOf r))),
                  Form = None, PostForm = None, RequestURI = ''''\<rparr>])
         \<and> snd (ParseQuery (Encode (formOf r))) = None
         \<and> (\<forall>k. index (fst (ParseQuery (Encode (formOf r)))) k = index (formOf r) k)"
proof -
  have fresh: "PostForm inbound = None" "Form inbound = None" "Method inbound = ''POST''"
    by (simp_all add: assms(1) readRequest_fields)
  have uri: "RequestURI inbound = target" and hdr: "Header inbound = header"
    by (simp_all add: assms(1) readRequest_fields)
  from assms(3) uri have dest: "extractDest (RequestURI inbound) = (dest, None)" by simp
  have run: "PostHandler env inbound =
      Log DebugLevel ''POST proxy''
      # doRequest env ''POST'' dest header (Some (NewReader (Encode (formOf r))))"
    using PostHandler_parsed [OF assms(2) dest assms(4)] by (simp add: hdr)
  have out: "outbound (PostHandler env inbound) =
      [\<lparr>Method = ''POST'', URL = Parse_ok dest, Header = header,
        Body = Some (NewReader (Encode (formOf r))),
        Form = None, PostForm = None, RequestURI = ''''\<rparr>]"
    if "url_Parse_error env dest = None"
  proof -
    from that have "NewRequest env ''POST'' dest (Some (NewReader (Encode (formOf r)))) =
        Inr \<lparr>Method = ''POST'', URL = Parse_ok dest, Header = [],
             Body = Some (NewReader (Encode (formOf r))),
             Form = None, PostForm = None, RequestURI = ''''\<rparr>"
      by (rule NewRequest_POST)
    then show ?thesis by (simp add: run outbound_doRequest)
  qed
  have "distinct (map fst (formOf (fst (ParseForm env inbound))))"
    using fresh by (rule distinct_formOf_ParseForm)
  with assms(2) have d: "distinct (map fst (formOf r))" by simp
  have rt: "snd (ParseQuery (Encode (formOf r))) = None"
    using d by (rule ParseQuery_Encode(1))
  have same: "index (fst (ParseQuery (Encode (formOf r)))) k = index (formOf r) k" for k
    using d by (rule ParseQuery_Encode(2))
  from run out rt same show ?thesis by blast
qed

theorem PostHandler_forwards_encoded_form_witness:
  "outbound (PostHandler (stubUpstream 201 ''hi'')
      (readRequest ''POST'' ''/proxy/http://example.test/ok''
         [(''Content-Type'', [''application/x-www-form-urlencoded''])]
         (NewReader ''z=/&q=a%26b%20c'')))
   = [\<lparr>Method = ''POST'', URL = Parse_ok ''http://example.test/ok'',
       Header = [(''Content-Type'', [''application/x-www-form-urlencoded''])],
       Body = Some (NewReader ''q=a%26b+c&z=%2F''),
       Form = None, PostForm = None, RequestURI = ''''\<rparr>]
   \<and> ''q=a%26b+c&z=%2F'' \<noteq> ''z=/&q=a%26b%20c''
   \<and> index (fst (ParseQuery ''q=a%26b+c&z=%2F'')) ''q'' = [''a&b c'']
   \<and> index (fst (ParseQuery ''q=a%26b+c&z=%2F'')) ''z'' = [''/'']"
proof -
  let ?env = "stubUpstream 201 ''hi''"
  let ?hdr = "[(''Content-Type'', [''application/x-www-form-urlencoded''])]"
  let ?inb = "readRequest ''POST'' ''/proxy/http://example.test/ok'' ?hdr
    (NewReader ''z=/&q=a%26b%20c'')"
  let ?form = "[(''z'', [''/'']), (''q'', [''a&b c''])]"
  let ?done = "?inb\<lparr>PostForm := Some ?form, Form := Some ?form\<rparr>"
  have body: "ParseQuery ''z=/&q=a%26b%20c'' = (?form, None)" by code_simp
  have cut: "fst (snd (Cut ''/proxy/http://example.test/ok'' ''?'')) = ''''" by code_simp
  have query: "ParseQuery '''' = ([], None)" by code_simp
  have copy: "copyValues (copyValues [] ?form) [] = ?form" by code_simp
  have ct: "Header_Get ?hdr ''Content-Type'' = ''application/x-www-form-urlencoded''"
    by (simp add: Header_Get_def index_def)
  have post: "parsePostForm ?env ?inb = (Some ?form, None)"
    using parsePostForm_urlencoded [of ?inb "''z=/&q=a%26b%20c''" None ?env]
    by (simp add: readRequest_fields ct NewReader_def stubUpstream_def maxFormSize_def body
        firstError_def)
  have parsed: "ParseForm ?env ?inb = (?done, None)"
    by (simp add: ParseForm_readRequest post cut query copy firstError_def Let_def)
  have dest: "extractDest ''/proxy/http://example.test/ok'' = (''http://example.test/ok'', None)"
    using extractDest_HasPrefix [of "''/proxy/http://example.test/ok''"]
    by (simp add: HasPrefix_def)
  have ne: "''http://example.test/ok'' \<noteq> ''''" by simp
  have form: "formOf ?done = ?form" by (simp add: formOf_def)
  have enc: "Encode ?form = ''q=a%26b+c&z=%2F''" by code_simp
  have q: "index ?form ''q'' = [''a&b c'']" and z: "index ?form ''z'' = [''/'']"
    by (simp_all add: index_def)
  note fwd = PostHandler_forwards_encoded_form [OF refl parsed dest ne]
  have a: "outbound (PostHandler ?env ?inb) =
      [\<lparr>Method = ''POST'', URL = Parse_ok ''http://example.test/ok'', Header = ?hdr,
        Body = Some (NewReader ''q=a%26b+c&z=%2F''),
        Form = None, PostForm = None, RequestURI = ''''\<rparr>]"
    using fwd [THEN conjunct2, THEN conjunct1] by (simp add: stubUpstream_def form enc)
  have b: "index (fst (ParseQuery ''q=a%26b+c&z=%2F'')) ''q'' = [''a&b c'']"
    using fwd [THEN conjunct2, THEN conjunct2, THEN conjunct2, THEN spec, of "''q''"]
    by (simp only: form enc q)
  have c: "index (fst (ParseQuery ''q=a%26b+c&z=%2F'')) ''z'' = [''/'']"
    using fwd [THEN conjunct2, THEN conjunct2, THEN conjunct2, THEN spec, of "''z''"]
    by (simp only: form enc z)
  have d: "''q=a%26b+c&z=%2F'' \<noteq> ''z=/&q=a%26b%20c''" by simp
  from a b c d show ?thesis by blast
qed

text \<open>
  C7, as the claim states it, fails: \<open>ParseForm\<close> reads the body only under
  the content type \<open>application/x-www-form-urlencoded\<close>. A POST whose body is
  not valid form data but is sent as \<open>application/json\<close> passes \<open>ParseForm\<close>
  and is forwarded (with the empty form as its body).
\<close>

theorem PostHandler_forwards_unparsed_body:
  "snd (ParseQuery ''a=%zz'') = Some (EscapeError ''%zz'')
   \<and> PostHandler (stubUpstream 201 ''hi'')
        (readRequest ''POST'' ''/proxy/http://example.test/ok''
           [(''Content-Type'', [''application/json''])] (NewReader ''a=%zz''))
     = [Log DebugLevel ''POST proxy'',
        ClientDo \<lparr>Method = ''POST'', URL = Parse_ok ''http://example.test/ok'',
                  Header = [(''Content-Type'', [''application/json''])],
                  Body = Some (NewReader ''''), Form = None, PostForm = None,
                  RequestURI = ''''\<rparr>,
        WriteHeader 201, Write ''hi'', BodyClose]"
proof -
  let ?env = "stubUpstream 201 ''hi''"
  let ?hdr = "[(''Content-Type'', [''application/json''])]"
  let ?inb = "readRequest ''POST'' ''/proxy/http://example.test/ok'' ?hdr (NewReader ''a=%zz'')"
  let ?done = "?inb\<lparr>PostForm := Some [], Form := Some []\<rparr>"
  let ?out = "\<lparr>Method = ''POST'', URL = Parse_ok ''http://example.test/ok'', Header = [],
    Body = Some (NewReader ''''), Form = None, PostForm = None, RequestURI = ''''\<rparr>"
  have bad: "snd (ParseQuery ''a=%zz'') = Some (EscapeError ''%zz'')" by code_simp
  have cut: "fst (snd (Cut ''/proxy/http://example.test/ok'' ''?'')) = ''''" by code_simp
  have query: "ParseQuery '''' = ([], None)" by code_simp
  have ct: "Header_Get ?hdr ''Content-Type'' = ''application/json''"
    by (simp add: Header_Get_def index_def)
  have post: "parsePostForm ?env ?inb = (None, None)"
    using parsePostForm_other [of ?inb "NewReader ''a=%zz''" ?env]
    by (simp add: readRequest_fields ct stubUpstream_def)
  have parsed: "ParseForm ?env ?inb = (?done, None)"
    by (simp add: ParseForm_readRequest post cut query firstError_def Let_def)
  have dest: "extractDest (RequestURI ?inb) = (''http://example.test/ok'', None)"
    using extractDest_HasPrefix [of "''/proxy/http://example.test/ok''"]
    by (simp add: HasPrefix_def readRequest_fields)
  have enc: "Encode (formOf ?done) = ''''"
    by (simp add: formOf_def Encode_def)
  have run: "PostHandler ?env ?inb =
      Log DebugLevel ''POST proxy''
      # doRequest ?env ''POST'' ''http://example.test/ok'' ?hdr (Some (NewReader ''''))"
    using PostHandler_parsed [OF parsed dest] by (simp add: enc readRequest_fields)
  have new: "NewRequest ?env ''POST'' ''http://example.test/ok'' (Some (NewReader '''')) = Inr ?out"
    by (rule NewRequest_POST) (simp add: stubUpstream_def)
  have "doRequest ?env ''POST'' ''http://example.test/ok'' ?hdr (Some (NewReader '''')) =
      [ClientDo (?out\<lparr>Header := ?hdr\<rparr>), WriteHeader 201, Write ''hi'', BodyClose]"
    by (simp only: doRequest_def new sum.case)
       (simp add: stubUpstream_def NewReader_def w_WriteHeader_final response_Write_def)
  with run bad show ?thesis by simp
qed

text \<open>
  C7, amended. For every POST request whose content type is
  \<open>application/x-www-form-urlencoded\<close> and whose body is not valid URL-encoded
  form data, the handler logs the parse error, answers 400 and does nothing
  else: no call to the upstream is made, whatever the request target is, since
  the form is parsed before the destination is looked at.
\<close>

theorem PostHandler_rejects_malformed_form:
  assumes "Header_Get header ''Content-Type'' \<noteq> ''''"
    and "fst (mime_ParseMediaType env (Header_Get header ''Content-Type''))
           = ''application/x-www-form-urlencoded''"
    and "snd (ParseQuery b) \<noteq> None"
  shows "PostHandler env (readRequest ''POST'' target header (Reader b e))
           = [Log ErrorLevel ''parse form failed'', WriteHeader 400]
         \<and> statuses (PostHandler env (readRequest ''POST'' target header (Reader b e))) = [400]
         \<and> outbound (PostHandler env (readRequest ''POST'' target header (Reader b e))) = []"
proof -
  let ?inb = "readRequest ''POST'' target header (Reader b e)"
  have "parsePostForm env ?inb =
     (let err = snd (mime_ParseMediaType env (Header_Get (Header ?inb) ''Content-Type''))
      in if maxFormSize + 1 \<le> length b then (None, Some (errors_New ''http: POST too large''))
         else if e \<noteq> None then (None, firstError err e)
         else (Some (fst (ParseQuery b)), firstError err (snd (ParseQuery b))))"
    using assms(1,2) by (intro parsePostForm_urlencoded) (simp_all add: readRequest_fields)
  then have "snd (parsePostForm env ?inb) = Some (errors_New ''http: POST too large'')
      \<or> (e \<noteq> None \<and> snd (parsePostForm env ?inb)
            = firstError (snd (mime_ParseMediaType env (Header_Get (Header ?inb) ''Content-Type''))) e)
      \<or> snd (parsePostForm env ?inb)
            = firstError (snd (mime_ParseMediaType env (Header_Get (Header ?inb) ''Content-Type'')))
                (snd (ParseQuery b))"
    by (simp add: Let_def)
  then have "snd (parsePostForm env ?inb) \<noteq> None"
    using firstError_Some_right [OF assms(3)] firstError_Some_right [of e] by auto
  then have "snd (ParseForm env ?inb) \<noteq> None"
    by (simp add: ParseForm_readRequest Let_def firstError_Some)
  then have run: "PostHandler env ?inb = [Log ErrorLevel ''parse form failed'', WriteHeader 400]"
    by (rule PostHandler_parse_error)
  then show ?thesis by simp
qed

theorem PostHandler_rejects_malformed_form_witness:
  "statuses (PostHandler (stubUpstream 201 ''hi'')
      (readRequest ''POST'' ''/nowhere''
         [(''Content-Type'', [''application/x-www-form-urlencoded''])] (Reader ''a=%zz'' None)))
     = [400]
   \<and> outbound (PostHandler (stubUpstream 201 ''hi'')
      (readRequest ''POST'' ''/proxy/http://example.test/ok''
         [(''Content-Type'', [''application/x-www-form-urlencoded''])] (Reader ''a=%zz'' None)))
     = []"
proof -
  let ?hdr = "[(''Content-Type'', [''application/x-www-form-urlencoded''])]"
  have ct: "Header_Get ?hdr ''Content-Type'' = ''application/x-www-form-urlencoded''"
    by (simp add: Header_Get_def index_def)
  then have h1: "Header_Get ?hdr ''Content-Type'' \<noteq> ''''" by simp
  have h2: "fst (mime_ParseMediaType (stubUpstream 201 ''hi'') (Header_Get ?hdr ''Content-Type''))
      = ''application/x-www-form-urlencoded''"
    by (simp add: ct stubUpstream_def)
  have "snd (ParseQuery ''a=%zz'') = Some (EscapeError ''%zz'')" by code_simp
  then have h3: "snd (ParseQuery ''a=%zz'') \<noteq> None" by simp
  note rejected = PostHandler_rejects_malformed_form [OF h1 h2 h3]
  from rejected [of "''/nowhere''" None] rejected [of "''/proxy/http://example.test/ok''" None]
  show ?thesis by blast
qed

text \<open>
  C10. The body that the POST handler forwards is the encoding of the merged
  form \<open>r.Form\<close>: under every key, the values of the inbound body's form
  followed by the values of the query string of the request target. So each
  key and value of that query string stands, escaped and joined by \<open>=\<close>, in
  the forwarded body.
\<close>

theorem PostHandler_forwards_query_parameters:
  assumes "inbound = readRequest ''POST'' target header body"
    and "parsePostForm env inbound = (pf, None)"
    and "ParseQuery (fst (snd (Cut target ''?''))) = (query, None)"
    and "extractDest target = (dest, None)" and "dest \<noteq> ''''"
    and "url_Parse_error env dest = None"
  shows "outbound (PostHandler env inbound) =
           [\<lparr>Method = ''POST'', URL = Parse_ok dest, Header = header,
             Body = Some (NewReader (Encode (formOf (fst (ParseForm env inbound))))),
             Form = None, PostForm = None, RequestURI = ''''\<rparr>]
         \<and> (\<forall>k. index (formOf (fst (ParseForm env inbound))) k =
                  index (case pf of None \<Rightarrow> [] | Some vs \<Rightarrow> vs) k @ index query k)
         \<and> (\<forall>k v. v \<in> set (index query k) \<longrightarrow>
               sublist (QueryEscape k @ ''='' @ QueryEscape v)
                 (Encode (formOf (fst (ParseForm env inbound)))))"
proof -
  let ?form = "formOf (fst (ParseForm env inbound))"
  have fresh: "PostForm inbound = None" "Form inbound = None" "Method inbound = ''POST''"
    by (simp_all add: assms(1) readRequest_fields)
  have raw: "RawQuery (URL inbound) = fst (snd (Cut target ''?''))"
    by (simp add: assms(1) readRequest_fields)
  have merged: "index ?form k = index (case pf of None \<Rightarrow> [] | Some vs \<Rightarrow> vs) k @ index query k"
    for k
    using index_ParseForm_fresh [OF fresh, of env k] by (simp add: raw assms(2,3))
  have "snd (ParseForm env inbound) = None"
    using ParseForm_fresh [OF fresh, of env]
    by (simp add: Let_def raw assms(2,3) firstError_None)
  then have parsed: "ParseForm env inbound = (fst (ParseForm env inbound), None)"
    by (metis prod.collapse)
  have dest: "extractDest (RequestURI inbound) = (dest, None)"
    by (simp add: assms(1,4) readRequest_fields)
  have "outbound (PostHandler env inbound) =
      [\<lparr>Method = ''POST'', URL = Parse_ok dest, Header = Header inbound,
        Body = Some (NewReader (Encode ?form)),
        Form = None, PostForm = None, RequestURI = ''''\<rparr>]"
  proof -
    have "PostHandler env inbound =
        Log DebugLevel ''POST proxy''
        # doRequest env ''POST'' dest (Header inbound) (Some (NewReader (Encode ?form)))"
      using parsed dest assms(5) by (rule PostHandler_parsed)
    moreover have "NewRequest env ''POST'' dest (Some (NewReader (Encode ?form))) =
        Inr \<lparr>Method = ''POST'', URL = Parse_ok dest, Header = [],
             Body = Some (NewReader (Encode ?form)),
             Form = None, PostForm = None, RequestURI = ''''\<rparr>"
      using assms(6) by (rule NewRequest_POST)
    ultimately show ?thesis by (simp add: outbound_doRequest)
  qed
  then have out: "outbound (PostHandler env inbound) =
      [\<lparr>Method = ''POST'', URL = Parse_ok dest, Header = header,
        Body = Some (NewReader (Encode ?form)),
        Form = None, PostForm = None, RequestURI = ''''\<rparr>]"
    by (simp add: assms(1) readRequest_fields)
  have "sublist (QueryEscape k @ ''='' @ QueryEscape v) (Encode ?form)"
    if "v \<in> set (index query k)" for k v
  proof -
    from that have "v \<in> set (index ?form k)" by (simp add: merged)
    then show ?thesis by (rule Encode_has)
  qed
  with out merged show ?thesis by blast
qed

theorem PostHandler_forwards_query_parameters_witness:
  "outbound (PostHandler (stubUpstream 201 ''hi'')
      (readRequest ''POST'' ''/proxy/http://example.test/ok?x=1''
         [(''Content-Type'', [''application/x-www-form-urlencoded''])] (NewReader ''a=1'')))
   = [\<lparr>Method = ''POST'', URL = Parse_ok ''http://example.test/ok?x=1'',
       Header = [(''Content-Type'', [''application/x-www-form-urlencoded''])],
       Body = Some (NewReader ''a=1&x=1''),
       Form = None, PostForm = None, RequestURI = ''''\<rparr>]
   \<and> sublist ''x=1'' ''a=1&x=1''"
proof -
  let ?env = "stubUpstream 201 ''hi''"
  let ?hdr = "[(''Content-Type'', [''application/x-www-form-urlencoded''])]"
  let ?inb = "readRequest ''POST'' ''/proxy/http://example.test/ok?x=1'' ?hdr (NewReader ''a=1'')"
  have body: "ParseQuery ''a=1'' = ([(''a'', [''1''])], None)" by code_simp
  have cut: "fst (snd (Cut ''/proxy/http://example.test/ok?x=1'' ''?'')) = ''x=1''" by code_simp
  have query: "ParseQuery ''x=1'' = ([(''x'', [''1''])], None)" by code_simp
  have copy: "copyValues (copyValues [] [(''a'', [''1''])]) [(''x'', [''1''])]
      = [(''a'', [''1'']), (''x'', [''1''])]" by code_simp
  have enc: "Encode [(''a'', [''1'']), (''x'', [''1''])] = ''a=1&x=1''" by code_simp
  have esc: "QueryEscape ''x'' @ ''='' @ QueryEscape ''1'' = ''x=1''" by code_simp
  have ct: "Header_Get ?hdr ''Content-Type'' = ''application/x-www-form-urlencoded''"
    by (simp add: Header_Get_def index_def)
  have post: "parsePostForm ?env ?inb = (Some [(''a'', [''1''])], None)"
    using parsePostForm_urlencoded [of ?inb "''a=1''" None ?env]
    by (simp add: readRequest_fields ct NewReader_def stubUpstream_def maxFormSize_def body
        firstError_def)
  have q: "ParseQuery (fst (snd (Cut ''/proxy/http://example.test/ok?x=1'' ''?'')))
      = ([(''x'', [''1''])], None)"
    by (simp only: cut query)
  have dest: "extractDest ''/proxy/http://example.test/ok?x=1''
      = (''http://example.test/ok?x=1'', None)"
    using extractDest_HasPrefix [of "''/proxy/http://example.test/ok?x=1''"]
    by (simp add: HasPrefix_def)
  have ne: "''http://example.test/ok?x=1'' \<noteq> ''''" by simp
  have ok: "url_Parse_error ?env ''http://example.test/ok?x=1'' = None"
    by (simp add: stubUpstream_def)
  have form: "formOf (fst (ParseForm ?env ?inb)) = [(''a'', [''1'']), (''x'', [''1''])]"
    by (simp add: ParseForm_readRequest post cut query copy Let_def formOf_def)
  note fwd = PostHandler_forwards_query_parameters [OF refl post q dest ne ok]
  have a: "outbound (PostHandler ?env ?inb) =
      [\<lparr>Method = ''POST'', URL = Parse_ok ''http://example.test/ok?x=1'', Header = ?hdr,
        Body = Some (NewReader ''a=1&x=1''),
        Form = None, PostForm = None, RequestURI = ''''\<rparr>]"
    using fwd [THEN conjunct1] by (simp only: form enc)
  have "''1'' \<in> set (index [(''x'', [''1''])] ''x'')" by (simp add: index_def)
  with fwd [THEN conjunct2, THEN conjunct2]
  have "sublist (QueryEscape ''x'' @ ''='' @ QueryEscape ''1'')
      (Encode (formOf (fst (ParseForm ?env ?inb))))"
    by blast
  then have b: "sublist ''x=1'' ''a=1&x=1''" by (simp only: form enc esc)
  from a b show ?thesis by blast
qed

section \<open>Properties of the life cycle\<close>

lemma call_refines_spec_step:
  "state_of (fst (call c x)) = fst (spec_step (state_of c) x)
   \<and> snd (call c x) = snd (spec_step (state_of c) x)"
proof (cases x)
  case (CallStart sigChan keepalive)
  then show ?thesis
    by (cases "server c") (simp_all add: Start_def state_of_def AlreadyStartedError_def)
next
  case (CallShutdown shutdownResult)
  then show ?thesis
    by (cases "server c") (simp_all add: Shutdown_def state_of_def NotStartedError_def)
qed

text \<open>
  C8. The life cycle is a machine of two states on the instance handle: on
  every sequence of calls of \<open>Start\<close> and \<open>Shutdown\<close>, from every instance, the
  errors returned and the state reached are those of the machine in which
  \<open>Start\<close> fails (already started) exactly while Running and \<open>Shutdown\<close> fails
  (not started) exactly while Stopped, and in which \<open>Shutdown\<close> leads to
  Stopped whatever the graceful shutdown of the HTTP server returned, so that
  a \<open>Start\<close> after it succeeds.
\<close>

theorem lifecycle_two_states:
  "state_of (fst (calls c xs)) = fst (spec_steps (state_of c) xs)
   \<and> snd (calls c xs) = snd (spec_steps (state_of c) xs)"
proof (induction xs arbitrary: c)
  case Nil
  show ?case by simp
next
  case (Cons x xs)
  have step: "state_of (fst (call c x)) = fst (spec_step (state_of c) x)"
    and err: "snd (call c x) = snd (spec_step (state_of c) x)"
    using call_refines_spec_step [of c x] by simp_all
  from Cons.IH [of "fst (call c x)"] show ?case
    by (simp add: step err)
qed

theorem lifecycle_two_states_witness:
  "snd (calls (NewProxyServer ''0.0.0.0:8000'')
      [CallStart (Some (make_chan 1)) False,
       CallStart (Some (make_chan 1)) False,
       CallShutdown (Some (errors_New ''context deadline exceeded'')),
       CallShutdown None,
       CallStart (Some (make_chan 1)) False])
   = [None, Some (errors_New ''rest server already started''), None,
      Some (errors_New ''proxy server not started''), None]
   \<and> state_of (fst (calls (NewProxyServer ''0.0.0.0:8000'')
      [CallStart (Some (make_chan 1)) False,
       CallStart (Some (make_chan 1)) False,
       CallShutdown (Some (errors_New ''context deadline exceeded'')),
       CallShutdown None,
       CallStart (Some (make_chan 1)) False])) = Running"
proof -
  have stopped: "state_of (NewProxyServer ''0.0.0.0:8000'') = Stopped"
    by (simp add: state_of_def NewProxyServer_def)
  show ?thesis
    using lifecycle_two_states [of "NewProxyServer ''0.0.0.0:8000''"
        "[CallStart (Some (make_chan 1)) False,
          CallStart (Some (make_chan 1)) False,
          CallShutdown (Some (errors_New ''context deadline exceeded'')),
          CallShutdown None,
          CallStart (Some (make_chan 1)) False]"]
    by (simp add: stopped AlreadyStartedError_def NotStartedError_def)
qed

text \<open>
  C9, as the claim states it, fails: the task sends with a plain
  \<open>sigChan <- true\<close>. On a channel without buffer that nobody receives from,
  the task stays blocked in the send.
\<close>

theorem listenTask_blocks_unbuffered:
  "listenTask (Some (errors_New ''http: Server closed'')) (Some (make_chan 0)) = None"
  by (simp add: listenTask_def send_def make_chan_def)

text \<open>
  C9, amended. \<open>Start\<close> hands its channel to the listening task. When
  \<open>ListenAndServe\<close> returns an error and the channel is not \<open>nil\<close>, the task
  sends \<open>true\<close> on it with an ordinary blocking send: with nobody receiving,
  the send completes exactly when the buffer of the channel has room (as it
  has for the channel of capacity 1 that \<open>main\<close> makes), leaving the signal in
  the buffer, and blocks otherwise. With a \<open>nil\<close> channel nothing is sent and
  the task ends.
\<close>

theorem listenTask_send:
  "(server c = None \<longrightarrow> GoListen sigChan \<in> set (snd (snd (Start c sigChan keepalive))))
   \<and> listenTask (Some err) None = Some None
   \<and> (length (buffer ch) < capacity ch \<longrightarrow>
        listenTask (Some err) (Some ch) = Some (Some (ch\<lparr>buffer := buffer ch @ [True]\<rparr>)))
   \<and> (capacity ch \<le> length (buffer ch) \<longrightarrow> listenTask (Some err) (Some ch) = None)"
proof (intro conjI impI)
  assume "server c = None"
  then show "GoListen sigChan \<in> set (snd (snd (Start c sigChan keepalive)))"
    by (simp add: Start_def)
next
  show "listenTask (Some err) None = Some None"
    by (simp add: listenTask_def)
next
  assume "length (buffer ch) < capacity ch"
  then have "send ch True = Some (ch\<lparr>buffer := buffer ch @ [True]\<rparr>)"
    by (simp add: send_def)
  then show "listenTask (Some err) (Some ch) = Some (Some (ch\<lparr>buffer := buffer ch @ [True]\<rparr>))"
    by (simp add: listenTask_def)
next
  assume "capacity ch \<le> length (buffer ch)"
  then have "send ch True = None" by (simp add: send_def)
  then show "listenTask (Some err) (Some ch) = None"
    by (simp add: listenTask_def)
qed

theorem listenTask_send_witness:
  "GoListen (Some (make_chan 1))
     \<in> set (snd (snd (Start (NewProxyServer ''0.0.0.0:8000'') (Some (make_chan 1)) False)))
   \<and> listenTask (Some (errors_New ''listen tcp 0.0.0.0:8000: bind: address already in use''))
        (Some (make_chan 1))
     = Some (Some \<lparr>capacity = 1, buffer = [True]\<rparr>)
   \<and> listenTask (Some (errors_New ''http: Server closed''))
        (Some \<lparr>capacity = 1, buffer = [True]\<rparr>) = None"
proof -
  let ?bind = "errors_New ''listen tcp 0.0.0.0:8000: bind: address already in use''"
  let ?closed = "errors_New ''http: Server closed''"
  have stopped: "server (NewProxyServer ''0.0.0.0:8000'') = None"
    by (simp add: NewProxyServer_def)
  have room: "length (buffer (make_chan 1)) < capacity (make_chan 1)"
    by (simp add: make_chan_def)
  have full: "capacity \<lparr>capacity = 1, buffer = [True]\<rparr>
      \<le> length (buffer \<lparr>capacity = 1, buffer = [True]\<rparr>)"
    by simp
  note first = listenTask_send [of "NewProxyServer ''0.0.0.0:8000''" "Some (make_chan 1)" False
      ?bind "make_chan 1"]
  note again = listenTask_send [of "NewProxyServer ''0.0.0.0:8000''" "Some (make_chan 1)" False
      ?closed "\<lparr>capacity = 1, buffer = [True]\<rparr>"]
  from first stopped
  have a: "GoListen (Some (make_chan 1))
      \<in> set (snd (snd (Start (NewProxyServer ''0.0.0.0:8000'') (Some (make_chan 1)) False)))"
    by blast
  from first room
  have "listenTask (Some ?bind) (Some (make_chan 1))
      = Some (Some ((make_chan 1)\<lparr>buffer := buffer (make_chan 1) @ [True]\<rparr>))"
    by blast
  then have b: "listenTask (Some ?bind) (Some (make_chan 1))
      = Some (Some \<lparr>capacity = 1, buffer = [True]\<rparr>)"
    by (simp add: make_chan_def)
  from again full
  have c: "listenTask (Some ?closed) (Some \<lparr>capacity = 1, buffer = [True]\<rparr>) = None"
    by blast
  from a b c show ?thesis by blast
qed

end
